theory Spec2Isabelle
  imports Complex_Main "HOL-Library.Multiset" "HOL-Library.List_Lexorder" "HOL-Library.Char_ord"
begin

section \<open>Cells, rows and frames\<close>

text \<open>
  The program of \<^verbatim>\<open>network.py\<close> is a class \<^verbatim>\<open>DataProcessorTester\<close> whose methods work on
  pandas DataFrames. A DataFrame is modelled by its column labels and its rows, in order; a
  row gives a cell for each label. A cell is a Python scalar: a number (an integer, or a float
  given by its exact rational value), a string, the float NaN that pandas uses for a missing
  value, or Python's \<^verbatim>\<open>None\<close>, which an object column can hold (a JSON \<^verbatim>\<open>null\<close> among strings).
  Comparisons in the program are by value, so the promotion of an integer column to float64
  when it receives a NaN changes nothing that the program observes and is not modelled;
  infinite floats, booleans and nested values are outside the model.
\<close>

datatype number = I int | F rat

fun val :: "number \<Rightarrow> rat" where
  "val (I i) = of_int i"
| "val (F q) = q"

datatype cell = Num number | Str string | NaN | PyNone

text \<open>\<^verbatim>\<open>pd.isna\<close> on a scalar: NaN and \<^verbatim>\<open>None\<close> are both missing values.\<close>

definition is_na :: "cell \<Rightarrow> bool" where
  "is_na c = (c = NaN \<or> c = PyNone)"

type_synonym row = "(string \<times> cell) list"

record frame =
  columns :: "string list"
  rows :: "row list"

datatype error =
    KeyError "string list"
  | TypeError
  | ValueError
  | ReadError

text \<open>Reading a cell of a row; a label the row does not hold reads as missing.\<close>

definition cell_at :: "row \<Rightarrow> string \<Rightarrow> cell" where
  "cell_at r c = (case map_of r c of None \<Rightarrow> NaN | Some v \<Rightarrow> v)"

fun set_cell :: "string \<Rightarrow> cell \<Rightarrow> row \<Rightarrow> row" where
  "set_cell c v [] = [(c, v)]"
| "set_cell c v ((k, x) # r) = (if k = c then (c, v) # r else (k, x) # set_cell c v r)"

text \<open>\<^verbatim>\<open>df[col]\<close> as the list of the column's cells, and \<^verbatim>\<open>df[col] = values\<close>.\<close>

definition get_column :: "frame \<Rightarrow> string \<Rightarrow> cell list" where
  "get_column f c = map (\<lambda>r. cell_at r c) (rows f)"

definition set_column :: "frame \<Rightarrow> string \<Rightarrow> cell list \<Rightarrow> frame" where
  "set_column f c vs =
     \<lparr>columns = (if c \<in> set (columns f) then columns f else columns f @ [c]),
      rows = map (\<lambda>(r, v). set_cell c v r) (zip (rows f) vs)\<rparr>"

text \<open>
  A frame as pandas builds it: distinct labels, and every row holds exactly the labels of the
  frame, in their order.
\<close>

definition wf_frame :: "frame \<Rightarrow> bool" where
  "wf_frame f \<longleftrightarrow> distinct (columns f) \<and> list_all (\<lambda>r. map fst r = columns f) (rows f)"

section \<open>Python comparisons on cells\<close>

text \<open>
  \<^verbatim>\<open>x > k\<close> and its siblings for a scalar and a number: NaN compares false with everything, a
  string or \<^verbatim>\<open>None\<close> against a number raises TypeError.
\<close>

fun cmp_num :: "(rat \<Rightarrow> rat \<Rightarrow> bool) \<Rightarrow> cell \<Rightarrow> rat \<Rightarrow> error + bool" where
  "cmp_num opr (Num n) k = Inr (opr (val n) k)"
| "cmp_num opr NaN k = Inr False"
| "cmp_num opr (Str s) k = Inl TypeError"
| "cmp_num opr PyNone k = Inl TypeError"

text \<open>
  \<^verbatim>\<open>a == b\<close> and \<^verbatim>\<open>a != b\<close> on two scalars: numbers by value, strings by their characters,
  \<^verbatim>\<open>None\<close> equal to \<^verbatim>\<open>None\<close> only, and NaN unequal to everything, itself included.
\<close>

fun py_eq :: "cell \<Rightarrow> cell \<Rightarrow> bool" where
  "py_eq (Num a) (Num b) = (val a = val b)"
| "py_eq (Str a) (Str b) = (a = b)"
| "py_eq PyNone PyNone = True"
| "py_eq _ _ = False"

definition py_ne :: "cell \<Rightarrow> cell \<Rightarrow> bool" where
  "py_ne a b = (\<not> py_eq a b)"

section \<open>The Transformer: \<^verbatim>\<open>process_data\<close>\<close>

text \<open>
  What \<^verbatim>\<open>pd.to_numeric\<close> makes of a string: a number, the missing value (the empty string
  and the spellings of NaN), or nothing, when the string is not numeric. Which strings
  pandas reads in which way is the library's business; the parser is a parameter \<open>parse\<close>,
  and every theorem holds for every parser.
\<close>

datatype parse_result = Parsed number | ParsedNaN | NotNumeric

type_synonym parser = "string \<Rightarrow> parse_result"

text \<open>
  \<^verbatim>\<open>pd.to_numeric(series, errors='coerce')\<close>: a number stays, a string that parses becomes its
  number, everything else, \<^verbatim>\<open>None\<close> included, becomes NaN.
\<close>

fun coerce_cell :: "parser \<Rightarrow> cell \<Rightarrow> cell" where
  "coerce_cell parse (Num n) = Num n"
| "coerce_cell parse (Str s) = (case parse s of Parsed n \<Rightarrow> Num n | _ \<Rightarrow> NaN)"
| "coerce_cell parse NaN = NaN"
| "coerce_cell parse PyNone = NaN"

definition to_numeric_coerce :: "parser \<Rightarrow> cell list \<Rightarrow> cell list" where
  "to_numeric_coerce parse col = map (coerce_cell parse) col"

definition numeric_cols :: "string list" where
  "numeric_cols = [''runs'', ''wickets'', ''age'']"

text \<open>The loop of lines 49 to 51: one column after the other, only where it is present.\<close>

definition coerce_step :: "parser \<Rightarrow> string \<Rightarrow> frame \<Rightarrow> frame" where
  "coerce_step parse col f =
     (if col \<in> set (columns f)
      then set_column f col (to_numeric_coerce parse (get_column f col))
      else f)"

definition coerce_numeric_cols :: "parser \<Rightarrow> frame \<Rightarrow> frame" where
  "coerce_numeric_cols parse f = fold (coerce_step parse) numeric_cols f"

text \<open>
  \<^verbatim>\<open>df.dropna(subset=cols)\<close>: KeyError for labels that are not columns, otherwise the rows
  with no missing cell among \<open>cols\<close>.
\<close>

definition dropna :: "frame \<Rightarrow> string list \<Rightarrow> error + frame" where
  "dropna f subs =
     (case filter (\<lambda>c. c \<notin> set (columns f)) subs of
        [] \<Rightarrow> Inr (f\<lparr>rows := filter (\<lambda>r. list_all (\<lambda>c. \<not> is_na (cell_at r c)) subs) (rows f)\<rparr>)
      | missing \<Rightarrow> Inl (KeyError missing))"

text \<open>
  A comparison of a whole column with a number (\<^verbatim>\<open>df['age'] >= 15\<close>): the boolean column,
  false where the cell is missing, or TypeError as soon as the column holds a string.
\<close>

fun series_cmp_cell :: "(rat \<Rightarrow> rat \<Rightarrow> bool) \<Rightarrow> cell \<Rightarrow> rat \<Rightarrow> error + bool" where
  "series_cmp_cell opr (Num n) k = Inr (opr (val n) k)"
| "series_cmp_cell opr NaN k = Inr False"
| "series_cmp_cell opr PyNone k = Inr False"
| "series_cmp_cell opr (Str s) k = Inl TypeError"

fun series_cmp :: "(rat \<Rightarrow> rat \<Rightarrow> bool) \<Rightarrow> cell list \<Rightarrow> rat \<Rightarrow> error + bool list" where
  "series_cmp opr [] k = Inr []"
| "series_cmp opr (c # cs) k =
     (case series_cmp_cell opr c k of
        Inl e \<Rightarrow> Inl e
      | Inr b \<Rightarrow> (case series_cmp opr cs k of Inl e \<Rightarrow> Inl e | Inr bs \<Rightarrow> Inr (b # bs)))"

definition boolean_mask :: "frame \<Rightarrow> bool list \<Rightarrow> frame" where
  "boolean_mask f m = f\<lparr>rows := map fst (filter snd (zip (rows f) m))\<rparr>"

text \<open>Line 57: \<^verbatim>\<open>df[(df['age'] >= 15) & (df['age'] <= 50)]\<close>.\<close>

definition age_filter :: "frame \<Rightarrow> error + frame" where
  "age_filter f =
     (if ''age'' \<notin> set (columns f) then Inl (KeyError [''age''])
      else case series_cmp (\<ge>) (get_column f ''age'') 15 of
             Inl e \<Rightarrow> Inl e
           | Inr lo \<Rightarrow>
               (case series_cmp (\<le>) (get_column f ''age'') 50 of
                  Inl e \<Rightarrow> Inl e
                | Inr hi \<Rightarrow> Inr (boolean_mask f (map (\<lambda>(a, b). a \<and> b) (zip lo hi)))))"

text \<open>
  Lines 60 to 66. Python's \<^verbatim>\<open>and\<close> reads \<^verbatim>\<open>row['wickets']\<close> only when the test on the runs
  holds, and the \<^verbatim>\<open>elif\<close> tests the runs again.
\<close>

definition determine_player_type :: "row \<Rightarrow> error + string" where
  "determine_player_type row =
     (case cmp_num (>) (cell_at row ''runs'') 500 of
        Inl e \<Rightarrow> Inl e
      | Inr False \<Rightarrow> Inr ''Bowler''
      | Inr True \<Rightarrow>
          (case cmp_num (\<ge>) (cell_at row ''wickets'') 50 of
             Inl e \<Rightarrow> Inl e
           | Inr True \<Rightarrow> Inr ''All-Rounder''
           | Inr False \<Rightarrow> Inr ''Batsman''))"

text \<open>\<^verbatim>\<open>df.apply(func, axis=1)\<close>: the function on every row in order; the first error ends it.\<close>

fun apply_rows :: "(row \<Rightarrow> error + string) \<Rightarrow> row list \<Rightarrow> error + cell list" where
  "apply_rows func [] = Inr []"
| "apply_rows func (r # rs) =
     (case func r of
        Inl e \<Rightarrow> Inl e
      | Inr s \<Rightarrow> (case apply_rows func rs of Inl e \<Rightarrow> Inl e | Inr vs \<Rightarrow> Inr (Str s # vs)))"

text \<open>
  \<^verbatim>\<open>process_data\<close> on the value of its argument. The copy of line 45 is the identity on
  values (the heap model below gives it an address of its own); the snapshot written by
  \<^verbatim>\<open>to_csv\<close> on line 72 is not read again and is left out.
\<close>

definition process_data :: "parser \<Rightarrow> frame \<Rightarrow> error + frame" where
  "process_data parse data =
     (case dropna (coerce_numeric_cols parse data) [''runs'', ''wickets''] of
        Inl e \<Rightarrow> Inl e
      | Inr dropped \<Rightarrow>
          (case age_filter dropped of
             Inl e \<Rightarrow> Inl e
           | Inr kept \<Rightarrow>
               (case apply_rows determine_player_type (rows kept) of
                  Inl e \<Rightarrow> Inl e
                | Inr types \<Rightarrow> Inr (set_column kept ''playerType'' types))))"

section \<open>The Validator: \<^verbatim>\<open>validate_output\<close>\<close>

definition expected_cols :: "string list" where
  "expected_cols = [''playerName'', ''age'', ''runs'', ''wickets'', ''eventType'', ''playerType'']"

text \<open>
  \<^verbatim>\<open>df[cols]\<close> for a list of labels: KeyError for the labels that are no columns, otherwise a
  new frame with these columns, in this order.
\<close>

definition project :: "string list \<Rightarrow> row \<Rightarrow> row" where
  "project cols r = map (\<lambda>c. (c, cell_at r c)) cols"

definition select_columns :: "frame \<Rightarrow> string list \<Rightarrow> error + frame" where
  "select_columns f cols =
     (case filter (\<lambda>c. c \<notin> set (columns f)) cols of
        [] \<Rightarrow> Inr \<lparr>columns = cols, rows = map (project cols) (rows f)\<rparr>
      | missing \<Rightarrow> Inl (KeyError missing))"

text \<open>
  \<^verbatim>\<open>df.sort_values(col)\<close> with the defaults of pandas: ascending, rows whose key is missing
  last, and \<^verbatim>\<open>kind='quicksort'\<close>, for which the library promises a sorted permutation and
  says nothing about the order of rows with equal keys. The sort of the rows whose key is
  present is therefore a parameter \<open>srt\<close>; theorems say what they need of it, and the
  routine that pandas runs is \<open>numpy_quicksort\<close> below. Keys of different kinds cannot be
  ordered: a column with both strings and numbers raises TypeError.
\<close>

type_synonym sorter = "(row \<Rightarrow> cell) \<Rightarrow> row list \<Rightarrow> row list"

definition is_str :: "cell \<Rightarrow> bool" where
  "is_str c = (case c of Str s \<Rightarrow> True | _ \<Rightarrow> False)"

definition is_num :: "cell \<Rightarrow> bool" where
  "is_num c = (case c of Num n \<Rightarrow> True | _ \<Rightarrow> False)"

definition sort_values :: "sorter \<Rightarrow> frame \<Rightarrow> string \<Rightarrow> error + frame" where
  "sort_values srt f col =
     (if col \<notin> set (columns f) then Inl (KeyError [col])
      else let key = (\<lambda>r. cell_at r col);
               present = filter (\<lambda>r. \<not> is_na (key r)) (rows f);
               missing = filter (\<lambda>r. is_na (key r)) (rows f)
           in if list_ex (\<lambda>r. is_str (key r)) present \<and> list_ex (\<lambda>r. is_num (key r)) present
              then Inl TypeError
              else Inr (f\<lparr>rows := srt key present @ missing\<rparr>))"

text \<open>Line 96 and line 97; \<^verbatim>\<open>reset_index\<close> renumbers the rows, which a list does by itself.\<close>

definition prepare_expected :: "sorter \<Rightarrow> frame \<Rightarrow> error + frame" where
  "prepare_expected srt expected_data =
     (case select_columns expected_data expected_cols of
        Inl e \<Rightarrow> Inl e
      | Inr selected \<Rightarrow> sort_values srt selected ''playerName'')"

definition prepare_actual :: "sorter \<Rightarrow> frame \<Rightarrow> error + frame" where
  "prepare_actual srt actual_data =
     (case select_columns actual_data (columns actual_data) of
        Inl e \<Rightarrow> Inl e
      | Inr selected \<Rightarrow> sort_values srt selected ''playerName'')"

text \<open>
  The inner loop of lines 114 to 117 over the remaining columns: \<open>True\<close> when a field differs.
  \<^verbatim>\<open>actual_row[col]\<close> raises KeyError for a label the actual frame does not have, unless an
  earlier field already differed and the \<^verbatim>\<open>break\<close> ended the loop.
\<close>

fun compare_fields :: "string list \<Rightarrow> string list \<Rightarrow> row \<Rightarrow> row \<Rightarrow> error + bool" where
  "compare_fields actual_cols [] expected_row actual_row = Inr False"
| "compare_fields actual_cols (col # cols) expected_row actual_row =
     (if col \<notin> set actual_cols then Inl (KeyError [col])
      else if py_ne (cell_at expected_row col) (cell_at actual_row col) then Inr True
      else compare_fields actual_cols cols expected_row actual_row)"

text \<open>
  One cell of \<^verbatim>\<open>actual_df['playerName'] == player_name\<close>, the comparison of a column with a
  scalar: as \<^verbatim>\<open>==\<close> on scalars, except that a missing value on either side gives false, also
  \<^verbatim>\<open>None\<close> against \<^verbatim>\<open>None\<close>.
\<close>

definition series_eq :: "cell \<Rightarrow> cell \<Rightarrow> bool" where
  "series_eq c player_name = (\<not> is_na c \<and> \<not> is_na player_name \<and> py_eq c player_name)"

text \<open>The body of the loop of line 103 for one expected row: \<open>True\<close> when the row is marked FAIL.\<close>

definition matching_rows :: "frame \<Rightarrow> cell \<Rightarrow> row list" where
  "matching_rows actual_df player_name =
     filter (\<lambda>a. series_eq (cell_at a ''playerName'') player_name) (rows actual_df)"

definition row_fails :: "frame \<Rightarrow> row \<Rightarrow> error + bool" where
  "row_fails actual_df expected_row =
     (case matching_rows actual_df (cell_at expected_row ''playerName'') of
        [] \<Rightarrow> Inr True
      | actual_row # others \<Rightarrow>
          compare_fields (columns actual_df) expected_cols expected_row actual_row)"

fun compare_rows :: "frame \<Rightarrow> row list \<Rightarrow> error + row list" where
  "compare_rows actual_df [] = Inr []"
| "compare_rows actual_df (expected_row # rest) =
     (case row_fails actual_df expected_row of
        Inl e \<Rightarrow> Inl e
      | Inr fails \<Rightarrow>
          (case compare_rows actual_df rest of
             Inl e \<Rightarrow> Inl e
           | Inr done_rows \<Rightarrow>
               Inr ((if fails then set_cell ''Result'' (Str ''FAIL'') expected_row
                     else expected_row) # done_rows)))"

text \<open>
  \<^verbatim>\<open>validate_output\<close>. The verdict table written by \<^verbatim>\<open>to_csv\<close> on line 121 is the returned
  frame and is not read again.
\<close>

definition validate_output :: "sorter \<Rightarrow> frame \<Rightarrow> frame \<Rightarrow> error + frame" where
  "validate_output srt expected_data actual_data =
     (case prepare_expected srt expected_data of
        Inl e \<Rightarrow> Inl e
      | Inr expected_sorted \<Rightarrow>
          (case prepare_actual srt actual_data of
             Inl e \<Rightarrow> Inl e
           | Inr actual_df \<Rightarrow>
               (let expected_df = set_column expected_sorted ''Result''
                      (replicate (length (rows expected_sorted)) (Str ''PASS''))
                in case compare_rows actual_df (rows expected_df) of
                     Inl e \<Rightarrow> Inl e
                   | Inr done_rows \<Rightarrow> Inr (expected_df\<lparr>rows := done_rows\<rparr>))))"

text \<open>
  A sort to compare with, which keeps rows with equal keys in their order: an insertion
  sort by the key, strings in the order of their characters and numbers by value.
\<close>

fun cell_le :: "cell \<Rightarrow> cell \<Rightarrow> bool" where
  "cell_le (Num a) (Num b) = (val a \<le> val b)"
| "cell_le (Str a) (Str b) = (a \<le> b)"
| "cell_le _ _ = False"

fun insert_by :: "(row \<Rightarrow> cell) \<Rightarrow> row \<Rightarrow> row list \<Rightarrow> row list" where
  "insert_by key x [] = [x]"
| "insert_by key x (y # ys) =
     (if cell_le (key x) (key y) then x # y # ys else y # insert_by key x ys)"

definition stable_sort :: sorter where
  "stable_sort key xs = foldr (insert_by key) xs []"

section \<open>The sort behind \<^verbatim>\<open>sort_values\<close>\<close>

text \<open>
  With \<^verbatim>\<open>kind='quicksort'\<close> pandas hands the keys that are present to \<^verbatim>\<open>numpy.argsort\<close>,
  which for an object array runs the routine \<^verbatim>\<open>npy_aquicksort\<close> of numpy's \<^verbatim>\<open>npysort\<close>: an
  introsort on the array of positions. The routine is not part of this repository; it is
  written down here as numpy has it, on the list of the rows in place of the array of their
  positions. Keys are compared with Python's \<^verbatim>\<open><\<close>.
\<close>

fun cell_less :: "cell \<Rightarrow> cell \<Rightarrow> bool" where
  "cell_less (Num a) (Num b) = (val a < val b)"
| "cell_less (Str a) (Str b) = (a < b)"
| "cell_less _ _ = False"

text \<open>The constant \<^verbatim>\<open>SMALL_QUICKSORT\<close>: a segment with at most one element more is sorted by insertion.\<close>

definition small_quicksort :: nat where
  "small_quicksort = 16"

definition swap_at :: "nat \<Rightarrow> nat \<Rightarrow> 'a list \<Rightarrow> 'a list" where
  "swap_at i j xs = xs[i := xs ! j, j := xs ! i]"

text \<open>
  The insertion sort at the end of the routine: each element in turn moves left past the
  elements that are greater. The sorted part is kept in reverse, its last element first.
\<close>

fun insert_left :: "(row \<Rightarrow> cell) \<Rightarrow> row \<Rightarrow> row list \<Rightarrow> row list" where
  "insert_left key x [] = [x]"
| "insert_left key x (y # ys) =
     (if cell_less (key x) (key y) then y # insert_left key x ys else x # y # ys)"

definition insertion_sort :: sorter where
  "insertion_sort key xs = rev (fold (insert_left key) xs [])"

text \<open>
  The partition of a segment \<open>xs\<close> with \<open>pl = 0\<close> and \<open>pr = length xs - 1\<close>. The middle element
  is ordered against the two ends and becomes the pivot \<open>vp\<close>, which is put at \<open>pr - 1\<close>.
\<close>

definition order_ends :: "(row \<Rightarrow> cell) \<Rightarrow> row list \<Rightarrow> row list" where
  "order_ends key xs =
     (let pr = length xs - 1;
          pm = pr div 2;
          xs1 = (if cell_less (key (xs ! pm)) (key (xs ! 0)) then swap_at pm 0 xs else xs);
          xs2 = (if cell_less (key (xs1 ! pr)) (key (xs1 ! pm)) then swap_at pr pm xs1 else xs1)
      in if cell_less (key (xs2 ! pm)) (key (xs2 ! 0)) then swap_at pm 0 xs2 else xs2)"

text \<open>
  The two scans of the partition, \<^verbatim>\<open>do ++pi; while (v[*pi] < vp && pi < pj)\<close> and
  \<^verbatim>\<open>do --pj; while (vp < v[*pj] && pi < pj)\<close>, each from the position that its first step
  reaches. The routine for arrays of objects does not rely on the pivot to stop a scan: it
  tests the positions as well.
\<close>

function scan_up :: "(row \<Rightarrow> cell) \<Rightarrow> row list \<Rightarrow> cell \<Rightarrow> nat \<Rightarrow> nat \<Rightarrow> nat" where
  "scan_up key xs vp j i =
     (if cell_less (key (xs ! i)) vp \<and> i < j then scan_up key xs vp j (Suc i) else i)"
  by pat_completeness auto
termination
  by (relation "measure (\<lambda>(key, xs, vp, j, i). j - i)") auto

declare scan_up.simps [simp del]

function scan_down :: "(row \<Rightarrow> cell) \<Rightarrow> row list \<Rightarrow> cell \<Rightarrow> nat \<Rightarrow> nat \<Rightarrow> nat" where
  "scan_down key xs vp i j =
     (if cell_less vp (key (xs ! j)) \<and> i < j then scan_down key xs vp i (j - 1) else j)"
  by pat_completeness auto
termination
  by (relation "measure (\<lambda>(key, xs, vp, i, j). j)") auto

declare scan_down.simps [simp del]

text \<open>
  The loop \<^verbatim>\<open>for (;;)\<close> around the two scans: it ends when the positions have met, and
  exchanges the two elements otherwise.
\<close>

function partition_loop ::
  "(row \<Rightarrow> cell) \<Rightarrow> cell \<Rightarrow> nat \<Rightarrow> nat \<Rightarrow> row list \<Rightarrow> nat \<times> row list" where
  "partition_loop key vp i j xs =
     (let i' = scan_up key xs vp j (Suc i);
          j' = scan_down key xs vp i' (j - 1)
      in if i' \<ge> j' then (i', xs)
         else partition_loop key vp i' j' (swap_at i' j' xs))"
  by pat_completeness auto
termination
proof (relation "measure (\<lambda>(key, vp, i, j, xs). j)")
  show "wf (measure (\<lambda>(key, vp, i, j, xs). j))" by simp
next
  fix key :: "row \<Rightarrow> cell" and vp i j and xs :: "row list" and x xa
  assume x: "x = scan_up key xs vp j (Suc i)" and xa: "xa = scan_down key xs vp x (j - 1)"
    and lt: "\<not> xa \<le> x"
  have down: "scan_down key xs vp l k \<le> k" for l k
  proof (induction key xs vp l k rule: scan_down.induct)
    case (1 key xs vp l k)
    show ?case
    proof (cases "cell_less vp (key (xs ! k)) \<and> l < k")
      case True
      with 1 have "scan_down key xs vp l (k - 1) \<le> k - 1" by simp
      with True show ?thesis by (subst scan_down.simps) simp
    next
      case False
      then show ?thesis by (subst scan_down.simps) auto
    qed
  qed
  from lt have "0 < xa" by simp
  with down [of x "j - 1"] xa have "xa < j" by simp
  then show "((key, vp, x, xa, swap_at x xa xs), (key, vp, i, j, xs))
               \<in> measure (\<lambda>(key, vp, i, j, xs). j)"
    by simp
qed

declare partition_loop.simps [simp del]

definition split_segment :: "(row \<Rightarrow> cell) \<Rightarrow> row list \<Rightarrow> nat \<times> row list" where
  "split_segment key xs =
     (let pr = length xs - 1;
          pm = pr div 2;
          xs3 = order_ends key xs;
          vp = key (xs3 ! pm);
          xs4 = swap_at pm (pr - 1) xs3
      in case partition_loop key vp 0 (pr - 1) xs4 of
           (i, xs5) \<Rightarrow> (i, swap_at i (pr - 1) xs5))"

text \<open>
  The heapsort \<^verbatim>\<open>npy_aheapsort\<close> that the routine falls back on. The C code counts the
  positions of the segment from one; position \<open>j\<close> is the element \<open>a ! (j - 1)\<close> of the list.
\<close>

function sift_down ::
  "(row \<Rightarrow> cell) \<Rightarrow> row \<Rightarrow> nat \<Rightarrow> nat \<Rightarrow> nat \<Rightarrow> row list \<Rightarrow> row list" where
  "sift_down key tmp n i j a =
     (if 0 < j \<and> j \<le> n
      then (let j' = (if j < n \<and> cell_less (key (a ! (j - 1))) (key (a ! j)) then j + 1 else j)
            in if cell_less (key tmp) (key (a ! (j' - 1)))
               then sift_down key tmp n j' (j' + j') (a[i - 1 := a ! (j' - 1)])
               else a[i - 1 := tmp])
      else a[i - 1 := tmp])"
  by pat_completeness auto
termination
  by (relation "measure (\<lambda>(key, tmp, n, i, j, a). Suc n - j)") auto

declare sift_down.simps [simp del]

fun heapify :: "(row \<Rightarrow> cell) \<Rightarrow> nat \<Rightarrow> nat \<Rightarrow> row list \<Rightarrow> row list" where
  "heapify key n 0 a = a"
| "heapify key n (Suc k) a = heapify key n k (sift_down key (a ! k) n (Suc k) (2 * Suc k) a)"

fun pop_max :: "(row \<Rightarrow> cell) \<Rightarrow> nat \<Rightarrow> row list \<Rightarrow> row list" where
  "pop_max key 0 a = a"
| "pop_max key (Suc m) a =
     (if 0 < m then pop_max key m (sift_down key (a ! m) m 1 2 (a[m := a ! 0])) else a)"

definition aheapsort :: sorter where
  "aheapsort key xs = pop_max key (length xs) (heapify key (length xs) (length xs div 2) xs)"

text \<open>\<^verbatim>\<open>npy_get_msb\<close>: the number of times a number can be halved before it is zero, less one.\<close>

fun msb :: "nat \<Rightarrow> nat" where
  "msb n = (if n < 2 then 0 else Suc (msb (n div 2)))"

declare msb.simps [simp del]

text \<open>
  The main loop on one segment with the depth \<open>cdepth\<close> left to it. A segment longer than
  \<^verbatim>\<open>SMALL_QUICKSORT\<close> plus one is partitioned; the loop goes on with the smaller part and
  pushes the larger part, with the decremented depth, on a stack. A part taken from the
  stack is sorted by heapsort when its depth is below zero, and by the main loop otherwise.
  The parts do not overlap, so it does not matter when the stack is emptied: each part is
  sorted where it stands.
\<close>

function aquicksort :: "(row \<Rightarrow> cell) \<Rightarrow> int \<Rightarrow> row list \<Rightarrow> row list" where
  "aquicksort key cdepth xs =
     (if small_quicksort < length xs - 1
      then (case split_segment key xs of
              (i, ys) \<Rightarrow>
                if i < length xs - 1 - i
                then aquicksort key (cdepth - 1) (take i ys) @ [ys ! i] @
                     (if cdepth - 1 < 0 then aheapsort key (drop (Suc i) ys)
                      else aquicksort key (cdepth - 1) (drop (Suc i) ys))
                else (if cdepth - 1 < 0 then aheapsort key (take i ys)
                      else aquicksort key (cdepth - 1) (take i ys)) @ [ys ! i] @
                     aquicksort key (cdepth - 1) (drop (Suc i) ys))
      else insertion_sort key xs)"
  by pat_completeness auto
termination
proof -
  have len_swap: "length (swap_at a b zs) = length zs" for a b and zs :: "row list"
    by (simp add: swap_at_def)
  have up: "scan_up key zs vp j k \<le> j" if "k \<le> j" for key zs vp j k
    using that
  proof (induction key zs vp j k rule: scan_up.induct)
    case (1 key zs vp j k)
    show ?case
    proof (cases "cell_less (key (zs ! k)) vp \<and> k < j")
      case True
      with 1 have "scan_up key zs vp j (Suc k) \<le> j" by simp
      with True show ?thesis by (subst scan_up.simps) simp
    next
      case False
      with 1 show ?thesis by (subst scan_up.simps) auto
    qed
  qed
  have down: "scan_down key zs vp l k \<le> k" for key zs vp l k
  proof (induction key zs vp l k rule: scan_down.induct)
    case (1 key zs vp l k)
    show ?case
    proof (cases "cell_less vp (key (zs ! k)) \<and> l < k")
      case True
      with 1 have "scan_down key zs vp l (k - 1) \<le> k - 1" by simp
      with True show ?thesis by (subst scan_down.simps) simp
    next
      case False
      then show ?thesis by (subst scan_down.simps) auto
    qed
  qed
  have loop: "fst (partition_loop key vp i j zs) \<le> j \<and>
              length (snd (partition_loop key vp i j zs)) = length zs"
    if "i < j" for key vp i j zs
    using that
  proof (induction key vp i j zs rule: partition_loop.induct)
    case (1 key vp i j zs)
    define i' where "i' = scan_up key zs vp j (Suc i)"
    define j' where "j' = scan_down key zs vp i' (j - 1)"
    from 1(2) have i'_le: "i' \<le> j" unfolding i'_def by (intro up) simp
    from down [of key zs vp i' "j - 1"] have j'_le: "j' \<le> j - 1" by (simp add: j'_def)
    have unfold: "partition_loop key vp i j zs =
        (if j' \<le> i' then (i', zs) else partition_loop key vp i' j' (swap_at i' j' zs))"
      unfolding i'_def j'_def by (subst partition_loop.simps) (simp add: Let_def)
    show ?case
    proof (cases "j' \<le> i'")
      case True
      with i'_le show ?thesis by (simp add: unfold)
    next
      case False
      then have "i' < j'" by simp
      with 1(1) [OF i'_def j'_def False] have
        "fst (partition_loop key vp i' j' (swap_at i' j' zs)) \<le> j' \<and>
         length (snd (partition_loop key vp i' j' (swap_at i' j' zs))) = length zs"
        by (simp add: len_swap)
      moreover from j'_le have "j' \<le> j" by simp
      ultimately have
        "fst (partition_loop key vp i' j' (swap_at i' j' zs)) \<le> j \<and>
         length (snd (partition_loop key vp i' j' (swap_at i' j' zs))) = length zs"
        by (meson order_trans)
      with False show ?thesis by (simp add: unfold)
    qed
  qed
  have seg: "i < length zs \<and> length ys = length zs"
    if "small_quicksort < length zs - 1" "split_segment key zs = (i, ys)" for key zs i ys
  proof -
    define pr where "pr = length zs - 1"
    define zs4 where "zs4 = swap_at (pr div 2) (pr - 1) (order_ends key zs)"
    define vp where "vp = key (order_ends key zs ! (pr div 2))"
    have l4: "length zs4 = length zs"
      by (simp add: zs4_def order_ends_def Let_def len_swap)
    from that(1) have big: "0 < pr - 1" by (simp add: pr_def small_quicksort_def)
    from loop [of 0 "pr - 1" key vp zs4] big
    have l: "fst (partition_loop key vp 0 (pr - 1) zs4) \<le> pr - 1"
      "length (snd (partition_loop key vp 0 (pr - 1) zs4)) = length zs"
      by (simp_all add: l4)
    from that(2) have "i = fst (partition_loop key vp 0 (pr - 1) zs4)"
      and "ys = swap_at i (pr - 1) (snd (partition_loop key vp 0 (pr - 1) zs4))"
      by (auto simp: split_segment_def Let_def pr_def zs4_def vp_def split: prod.splits)
    with l big show ?thesis by (simp add: len_swap pr_def)
  qed
  have seg': "i < length zs \<and> length ys = length zs"
    if "small_quicksort < length zs - Suc 0" "(i, ys) = split_segment key zs" for key zs i ys
    using seg [of zs key i ys] that by simp
  show ?thesis
    by (relation "measure (\<lambda>(key, cdepth, xs). length xs)") (auto dest: seg')
qed

declare aquicksort.simps [simp del]

text \<open>The routine with its first depth, twice \<^verbatim>\<open>npy_get_msb\<close> of the number of keys.\<close>

definition numpy_quicksort :: sorter where
  "numpy_quicksort key xs = aquicksort key (2 * int (msb (length xs))) xs"

section \<open>The Output Reader: \<^verbatim>\<open>read_output_data\<close>\<close>

text \<open>
  The object holds three directory names. The file system gives, for a path, nothing when
  no file is there, and otherwise either the table that \<^verbatim>\<open>pd.read_csv\<close> reads from the
  file or the fact that \<^verbatim>\<open>read_csv\<close> fails on it.
\<close>

record tester =
  input_dir :: string
  output_dir :: string
  temp_dir :: string

datatype csv_file = Csv frame | Unreadable

type_synonym files = "string \<Rightarrow> csv_file option"

text \<open>\<^verbatim>\<open>os.path.join\<close> of two parts on a POSIX system.\<close>

definition path_join :: "string \<Rightarrow> string \<Rightarrow> string" where
  "path_join a b =
     (if (case b of [] \<Rightarrow> False | c # cs \<Rightarrow> c = CHR ''/'') then b
      else if a = [] \<or> (case rev a of [] \<Rightarrow> False | c # cs \<Rightarrow> c = CHR ''/'') then a @ b
      else a @ ''/'' @ b)"

definition path_exists :: "files \<Rightarrow> string \<Rightarrow> bool" where
  "path_exists fs p = (case fs p of None \<Rightarrow> False | Some x \<Rightarrow> True)"

definition read_csv :: "files \<Rightarrow> string \<Rightarrow> error + frame" where
  "read_csv fs p =
     (case fs p of None \<Rightarrow> Inl ReadError | Some Unreadable \<Rightarrow> Inl ReadError
      | Some (Csv f) \<Rightarrow> Inr f)"

text \<open>\<^verbatim>\<open>pd.DataFrame()\<close>: no columns, no rows.\<close>

definition empty_frame :: frame where
  "empty_frame = \<lparr>columns = [], rows = []\<rparr>"

text \<open>
  \<^verbatim>\<open>pd.concat(frames, ignore_index=True)\<close>: the columns are the labels of all the frames in
  the order in which they first appear, the rows are the rows of the frames one frame after
  the other, and a row lacking a column is missing there. An empty list of frames raises
  ValueError.
\<close>

definition add_label :: "string \<Rightarrow> string list \<Rightarrow> string list" where
  "add_label c acc = (if c \<in> set acc then acc else acc @ [c])"

definition union_columns :: "string list list \<Rightarrow> string list" where
  "union_columns css = fold add_label (concat css) []"

definition concat_frames :: "frame list \<Rightarrow> error + frame" where
  "concat_frames fs =
     (if fs = [] then Inl ValueError
      else let cols = union_columns (map columns fs)
           in Inr \<lparr>columns = cols, rows = concat (map (\<lambda>f. map (project cols) (rows f)) fs)\<rparr>)"

text \<open>Lines 81 and 82: \<^verbatim>\<open>pd.read_csv(file) if os.path.exists(file) else pd.DataFrame()\<close>.\<close>

definition read_if_exists :: "files \<Rightarrow> string \<Rightarrow> error + frame" where
  "read_if_exists fs p = (if path_exists fs p then read_csv fs p else Inr empty_frame)"

definition read_output_data :: "tester \<Rightarrow> files \<Rightarrow> error + frame" where
  "read_output_data self fs =
     (let test_file = path_join (output_dir self) ''test_results.csv'';
          odi_file = path_join (output_dir self) ''odi_results.csv''
      in case read_if_exists fs test_file of
           Inl e \<Rightarrow> Inl e
         | Inr test_data \<Rightarrow>
             (case read_if_exists fs odi_file of
                Inl e \<Rightarrow> Inl e
              | Inr odi_data \<Rightarrow> concat_frames [test_data, odi_data]))"

section \<open>The Schema Checker: \<^verbatim>\<open>validate_schema\<close>\<close>

text \<open>The two Python types of the schema, and the schema in the order of the dictionary.\<close>

datatype pytype = PyStr | PyInt

definition expected_schema :: "(string \<times> pytype) list" where
  "expected_schema =
     [(''eventType'', PyStr), (''playerName'', PyStr), (''age'', PyInt), (''runs'', PyInt),
      (''wickets'', PyInt), (''playerType'', PyStr)]"

text \<open>
  \<^verbatim>\<open>is_integer_dtype\<close>: a column has an integer dtype when each of its cells is an integer; a
  float or a missing value makes it float64, a string makes it an object column.
\<close>

definition is_integer_dtype :: "cell list \<Rightarrow> bool" where
  "is_integer_dtype col = list_all (\<lambda>c. case c of Num (I i) \<Rightarrow> True | _ \<Rightarrow> False) col"

text \<open>
  \<^verbatim>\<open>pd.to_numeric(series, downcast='integer')\<close> runs with \<^verbatim>\<open>errors='raise'\<close>: it raises when
  a string of the column is not numeric. When the values are not whole numbers the
  downcast is given up and the floats are returned; nothing is raised.
\<close>

definition to_numeric_raises :: "parser \<Rightarrow> cell list \<Rightarrow> bool" where
  "to_numeric_raises parse col =
     list_ex (\<lambda>c. case c of Str s \<Rightarrow> parse s = NotNumeric | _ \<Rightarrow> False) col"

definition quoted :: "string \<Rightarrow> string" where
  "quoted s = [CHR 0x27] @ s @ [CHR 0x27]"

definition missing_message :: "string \<Rightarrow> string" where
  "missing_message column = ''Column '' @ quoted column @ '' is missing''"

definition integer_message :: "string \<Rightarrow> string" where
  "integer_message column = ''Column '' @ quoted column @ '' should be integer type''"

definition string_message :: "string \<Rightarrow> string" where
  "string_message column = ''Column '' @ quoted column @ '' should be string type''"

text \<open>
  One round of the loop of line 139 on the pair of \<^verbatim>\<open>schema_valid\<close> and \<^verbatim>\<open>schema_errors\<close>.
  What \<^verbatim>\<open>is_string_dtype\<close> answers for an object column differs between the versions of
  pandas; it is a parameter.
\<close>

definition schema_step ::
  "parser \<Rightarrow> (cell list \<Rightarrow> bool) \<Rightarrow> frame \<Rightarrow> string \<times> pytype \<Rightarrow> bool \<times> string list
     \<Rightarrow> bool \<times> string list" where
  "schema_step parse is_string_dtype data entry state =
     (case entry of (column, expected_type) \<Rightarrow>
      case state of (schema_valid, schema_errors) \<Rightarrow>
        if column \<notin> set (columns data)
        then (False, schema_errors @ [missing_message column])
        else if expected_type = PyInt
        then (if \<not> is_integer_dtype (get_column data column)
              then (if to_numeric_raises parse (get_column data column)
                    then (False, schema_errors @ [integer_message column])
                    else (schema_valid, schema_errors))
              else (schema_valid, schema_errors))
        else if expected_type = PyStr
        then (if \<not> is_string_dtype (get_column data column)
              then (False, schema_errors @ [string_message column])
              else (schema_valid, schema_errors))
        else (schema_valid, schema_errors))"

definition validate_schema ::
  "parser \<Rightarrow> (cell list \<Rightarrow> bool) \<Rightarrow> frame \<Rightarrow> bool \<times> string list" where
  "validate_schema parse is_string_dtype data =
     fold (schema_step parse is_string_dtype data) expected_schema (True, [])"

section \<open>\<^verbatim>\<open>process_data\<close> on a heap\<close>

text \<open>
  Python variables hold references. To say what \<^verbatim>\<open>process_data\<close> does to the object it is
  given, frames live in a heap, a list whose positions are the addresses. \<^verbatim>\<open>data.copy()\<close>,
  \<^verbatim>\<open>dropna\<close> and the selection by a mask build new objects; the assignments
  \<^verbatim>\<open>processed_data[col] = ...\<close> change the object that \<^verbatim>\<open>processed_data\<close> refers to in place.
\<close>

type_synonym heap = "frame list"

definition new_object :: "heap \<Rightarrow> frame \<Rightarrow> heap \<times> nat" where
  "new_object h f = (h @ [f], length h)"

definition setitem :: "heap \<Rightarrow> nat \<Rightarrow> string \<Rightarrow> cell list \<Rightarrow> heap" where
  "setitem h p col vs = h[p := set_column (h ! p) col vs]"

definition coerce_step_heap :: "parser \<Rightarrow> nat \<Rightarrow> string \<Rightarrow> heap \<Rightarrow> heap" where
  "coerce_step_heap parse p col h =
     (if col \<in> set (columns (h ! p))
      then setitem h p col (to_numeric_coerce parse (get_column (h ! p) col))
      else h)"

definition process_data_heap :: "parser \<Rightarrow> heap \<Rightarrow> nat \<Rightarrow> heap \<times> (error + nat)" where
  "process_data_heap parse h data =
     (case new_object h (h ! data) of (h1, processed_data) \<Rightarrow>
      let h2 = fold (coerce_step_heap parse processed_data) numeric_cols h1
      in case dropna (h2 ! processed_data) [''runs'', ''wickets''] of
           Inl e \<Rightarrow> (h2, Inl e)
         | Inr dropped \<Rightarrow>
             (case new_object h2 dropped of (h3, processed_data) \<Rightarrow>
              case age_filter (h3 ! processed_data) of
                Inl e \<Rightarrow> (h3, Inl e)
              | Inr kept \<Rightarrow>
                  (case new_object h3 kept of (h4, processed_data) \<Rightarrow>
                   case apply_rows determine_player_type (rows (h4 ! processed_data)) of
                     Inl e \<Rightarrow> (h4, Inl e)
                   | Inr types \<Rightarrow>
                       (setitem h4 processed_data ''playerType'' types, Inr processed_data))))"

section \<open>Sample data\<close>

text \<open>
  A sample parser for the closed instances below: it reads unsigned decimal integers, which
  pandas reads as the same integers, reads the empty string as missing, and rejects every
  other string.
\<close>

definition digit_of :: "char \<Rightarrow> nat option" where
  "digit_of c = (if c \<in> set ''0123456789'' then Some (of_char c - 48) else None)"

fun digits_value :: "nat \<Rightarrow> string \<Rightarrow> nat option" where
  "digits_value acc [] = Some acc"
| "digits_value acc (c # cs) =
     (case digit_of c of None \<Rightarrow> None | Some d \<Rightarrow> digits_value (10 * acc + d) cs)"

definition parse_decimal :: parser where
  "parse_decimal s =
     (if s = [] then ParsedNaN
      else case digits_value 0 s of None \<Rightarrow> NotNumeric | Some n \<Rightarrow> Parsed (I (int n)))"

definition player :: "cell \<Rightarrow> cell \<Rightarrow> cell \<Rightarrow> cell \<Rightarrow> cell \<Rightarrow> row" where
  "player name age runs wickets event =
     [(''playerName'', name), (''age'', age), (''runs'', runs), (''wickets'', wickets),
      (''eventType'', event)]"

text \<open>
  A merged dataset of seven players: one is too old, one has an age that is no number, one
  has runs that are no number and one has no wickets.
\<close>

definition merged_sample :: frame where
  "merged_sample =
     \<lparr>columns = [''playerName'', ''age'', ''runs'', ''wickets'', ''eventType''],
      rows =
        [player (Str ''Asha'') (Num (I 30)) (Str ''620'') (Num (I 60)) (Str ''TEST''),
         player (Str ''Bala'') (Num (I 52)) (Num (I 700)) (Num (I 10)) (Str ''ODI''),
         player (Str ''Chen'') (Num (I 15)) (Num (I 400)) (Num (I 999)) (Str ''ODI''),
         player (Str ''Dev'') (Str ''n/a'') (Num (I 900)) (Num (I 5)) (Str ''TEST''),
         player (Str ''Eli'') (Num (I 50)) (Num (F (1203 / 2))) (Num (I 49)) (Str ''TEST''),
         player (Str ''Finn'') (Num (I 33)) (Str ''many'') (Num (I 70)) (Str ''ODI''),
         player (Str ''Gus'') (Num (I 41)) (Num (I 10)) NaN (Str ''ODI'')]\<rparr>"

definition dropped_sample :: frame where
  "dropped_sample =
     \<lparr>columns = [''playerName'', ''age'', ''runs'', ''wickets'', ''eventType''],
      rows =
        [player (Str ''Asha'') (Num (I 30)) (Num (I 620)) (Num (I 60)) (Str ''TEST''),
         player (Str ''Bala'') (Num (I 52)) (Num (I 700)) (Num (I 10)) (Str ''ODI''),
         player (Str ''Chen'') (Num (I 15)) (Num (I 400)) (Num (I 999)) (Str ''ODI''),
         player (Str ''Dev'') NaN (Num (I 900)) (Num (I 5)) (Str ''TEST''),
         player (Str ''Eli'') (Num (I 50)) (Num (F (1203 / 2))) (Num (I 49)) (Str ''TEST'')]\<rparr>"

definition kept_sample :: frame where
  "kept_sample =
     \<lparr>columns = [''playerName'', ''age'', ''runs'', ''wickets'', ''eventType''],
      rows =
        [player (Str ''Asha'') (Num (I 30)) (Num (I 620)) (Num (I 60)) (Str ''TEST''),
         player (Str ''Chen'') (Num (I 15)) (Num (I 400)) (Num (I 999)) (Str ''ODI''),
         player (Str ''Eli'') (Num (I 50)) (Num (F (1203 / 2))) (Num (I 49)) (Str ''TEST'')]\<rparr>"

definition processed_sample :: frame where
  "processed_sample =
     \<lparr>columns = [''playerName'', ''age'', ''runs'', ''wickets'', ''eventType'', ''playerType''],
      rows =
        [player (Str ''Asha'') (Num (I 30)) (Num (I 620)) (Num (I 60)) (Str ''TEST'')
           @ [(''playerType'', Str ''All-Rounder'')],
         player (Str ''Chen'') (Num (I 15)) (Num (I 400)) (Num (I 999)) (Str ''ODI'')
           @ [(''playerType'', Str ''Bowler'')],
         player (Str ''Eli'') (Num (I 50)) (Num (F (1203 / 2))) (Num (I 49)) (Str ''TEST'')
           @ [(''playerType'', Str ''Batsman'')]]\<rparr>"

text \<open>
  The output of the system under test for the sample: Eli with other wickets, Asha twice
  (the first row as expected, the second a year older) and no Chen.
\<close>

definition output_row :: "cell \<Rightarrow> cell \<Rightarrow> cell \<Rightarrow> cell \<Rightarrow> cell \<Rightarrow> cell \<Rightarrow> row" where
  "output_row event name age runs wickets ptype =
     [(''eventType'', event), (''playerName'', name), (''age'', age), (''runs'', runs),
      (''wickets'', wickets), (''playerType'', ptype)]"

definition output_columns :: "string list" where
  "output_columns = [''eventType'', ''playerName'', ''age'', ''runs'', ''wickets'', ''playerType'']"

definition test_results_sample :: frame where
  "test_results_sample =
     \<lparr>columns = output_columns,
      rows =
        [output_row (Str ''TEST'') (Str ''Eli'') (Num (I 50)) (Num (F (1203 / 2))) (Num (I 40))
           (Str ''Batsman''),
         output_row (Str ''TEST'') (Str ''Asha'') (Num (I 30)) (Num (I 620)) (Num (I 60))
           (Str ''All-Rounder''),
         output_row (Str ''TEST'') (Str ''Asha'') (Num (I 31)) (Num (I 620)) (Num (I 60))
           (Str ''All-Rounder'')]\<rparr>"

definition odi_results_sample :: frame where
  "odi_results_sample =
     \<lparr>columns = output_columns,
      rows =
        [output_row (Str ''ODI'') (Str ''Bala'') (Num (I 52)) (Num (I 700)) (Num (I 10))
           (Str ''Batsman'')]\<rparr>"

definition sample_tester :: tester where
  "sample_tester =
     \<lparr>input_dir = ''inputDataSet'', output_dir = ''outputDataSet'', temp_dir = ''tempDataSet''\<rparr>"

definition files_both :: files where
  "files_both =
     map_of [(''outputDataSet/test_results.csv'', Csv test_results_sample),
             (''outputDataSet/odi_results.csv'', Csv odi_results_sample)]"

definition files_test_only :: files where
  "files_test_only = map_of [(''outputDataSet/test_results.csv'', Csv test_results_sample)]"

definition files_none :: files where
  "files_none = map_of []"

text \<open>An output whose ages are floats that are no whole numbers.\<close>

definition float_age_sample :: frame where
  "float_age_sample =
     \<lparr>columns = output_columns,
      rows =
        [output_row (Str ''TEST'') (Str ''Asha'') (Num (F (61 / 2))) (Num (I 620)) (Num (I 60))
           (Str ''All-Rounder'')]\<rparr>"

text \<open>An output without the column of the wickets and with ages that are no numbers.\<close>

definition broken_sample :: frame where
  "broken_sample =
     \<lparr>columns = [''eventType'', ''playerName'', ''age'', ''runs'', ''playerType''],
      rows =
        [[(''eventType'', Str ''TEST''), (''playerName'', Str ''Asha''), (''age'', Str ''thirty''),
          (''runs'', Num (I 620)), (''playerType'', NaN)]]\<rparr>"

text \<open>A sample answer of \<^verbatim>\<open>is_string_dtype\<close>: every cell of the column is a string.\<close>

definition all_strings :: "cell list \<Rightarrow> bool" where
  "all_strings col = list_all is_str col"

text \<open>
  What a sort may or may not do with rows whose keys are equal: it keeps them in their
  order when, for every key, the rows with this key come out in the order they went in.
\<close>

definition keeps_order :: "sorter \<Rightarrow> bool" where
  "keeps_order srt \<longleftrightarrow>
     (\<forall>key n xs. filter (\<lambda>r. series_eq (key r) n) (srt key xs)
                    = filter (\<lambda>r. series_eq (key r) n) xs)"




text \<open>
  An output of twenty rows: Asha, and nineteen rows for Bala whose ages run from 21 in row 1
  to 39 in row 19. The expected dataset holds one record for Bala, equal in its six fields
  to row 1, the first row for Bala in the output.
\<close>

definition squad_row :: "nat \<Rightarrow> row" where
  "squad_row i =
     output_row (Str ''ODI'') (Str ''Bala'') (Num (I (20 + int i))) (Num (I 700)) (Num (I 10))
       (Str ''Batsman'')"

definition squad_sample :: frame where
  "squad_sample =
     \<lparr>columns = output_columns,
      rows =
        output_row (Str ''TEST'') (Str ''Asha'') (Num (I 30)) (Num (I 620)) (Num (I 60))
          (Str ''All-Rounder'')
        # map squad_row [1, 2, 3, 4, 5, 6, 7, 8, 9, 10, 11, 12, 13, 14, 15, 16, 17, 18, 19]\<rparr>"







section \<open>Auxiliary notions for the proofs\<close>

text \<open>What a column comparison computes for one cell, and the test of line 57 on one row.\<close>

definition cell_test :: "(rat \<Rightarrow> rat \<Rightarrow> bool) \<Rightarrow> rat \<Rightarrow> cell \<Rightarrow> bool" where
  "cell_test opr k c = (case c of Num n \<Rightarrow> opr (val n) k | _ \<Rightarrow> False)"

definition age_ok :: "row \<Rightarrow> bool" where
  "age_ok r = (case cell_at r ''age'' of Num n \<Rightarrow> 15 \<le> val n \<and> val n \<le> 50 | _ \<Rightarrow> False)"


text \<open>
  The test of the loop of \<^verbatim>\<open>validate_schema\<close> for one entry of the schema, in one formula:
  whether the loop reports the column.
\<close>

definition reported_column ::
  "parser \<Rightarrow> (cell list \<Rightarrow> bool) \<Rightarrow> frame \<Rightarrow> string \<times> pytype \<Rightarrow> bool" where
  "reported_column parse is_string_dtype data entry =
     (case entry of (column, expected_type) \<Rightarrow>
        column \<notin> set (columns data) \<or>
        (case expected_type of
           PyInt \<Rightarrow> \<not> is_integer_dtype (get_column data column) \<and>
                    to_numeric_raises parse (get_column data column)
         | PyStr \<Rightarrow> \<not> is_string_dtype (get_column data column)))"

text \<open>
  The words of the specification, to compare the loop with: a column of the schema violates
  it when it is missing, or is present with the wrong type; an integer column has the right
  type when its values can be downcast to integer, that is, when they are whole numbers,
  also when they are stored as floats.
\<close>

definition whole_number :: "cell \<Rightarrow> bool" where
  "whole_number c =
     (case c of Num (I i) \<Rightarrow> True | Num (F q) \<Rightarrow> of_int \<lfloor>q\<rfloor> = q | _ \<Rightarrow> False)"

definition spec_violating_column ::
  "(cell list \<Rightarrow> bool) \<Rightarrow> frame \<Rightarrow> string \<times> pytype \<Rightarrow> bool" where
  "spec_violating_column is_string_dtype data entry =
     (case entry of (column, expected_type) \<Rightarrow>
        if column \<in> set (columns data)
        then (case expected_type of
                PyInt \<Rightarrow> \<not> list_all whole_number (get_column data column)
              | PyStr \<Rightarrow> \<not> is_string_dtype (get_column data column))
        else True)"

text \<open>The message of the loop for a column that it reports.\<close>

definition message_of :: "frame \<Rightarrow> string \<times> pytype \<Rightarrow> string" where
  "message_of data entry =
     (case entry of (column, expected_type) \<Rightarrow>
        if column \<notin> set (columns data) then missing_message column
        else case expected_type of
               PyInt \<Rightarrow> integer_message column
             | PyStr \<Rightarrow> string_message column)"

text \<open>The sample output of both files together.\<close>

definition both_results_sample :: frame where
  "both_results_sample =
     \<lparr>columns = output_columns, rows = rows test_results_sample @ rows odi_results_sample\<rparr>"

section \<open>Properties of the Transformer\<close>

subsection \<open>Cells and columns\<close>

lemma cell_at_set_cell:
  "cell_at (set_cell c v r) c' = (if c' = c then v else cell_at r c')"
  by (induction r) (auto simp: cell_at_def)

lemma zip_map_self:
  "map (\<lambda>(r, v). h v r) (zip rs (map g rs)) = map (\<lambda>r. h (g r) r) rs"
  by (induction rs) auto

lemma rows_coerce_step:
  "rows (coerce_step parse col f) =
     (if col \<in> set (columns f)
      then map (\<lambda>r. set_cell col (coerce_cell parse (cell_at r col)) r) (rows f)
      else rows f)"
  by (simp add: coerce_step_def set_column_def get_column_def to_numeric_coerce_def
      zip_map_self [where h = "set_cell col"] comp_def)

lemma columns_coerce_step: "columns (coerce_step parse col f) = columns f"
  by (simp add: coerce_step_def set_column_def)

lemma coerce_numeric_cols_unfold:
  "coerce_numeric_cols parse f =
     coerce_step parse ''age'' (coerce_step parse ''wickets'' (coerce_step parse ''runs'' f))"
  by (simp add: coerce_numeric_cols_def numeric_cols_def)

lemma columns_coerce_numeric_cols: "columns (coerce_numeric_cols parse f) = columns f"
  by (simp add: coerce_numeric_cols_unfold columns_coerce_step)

lemma length_rows_coerce_numeric_cols:
  "length (rows (coerce_numeric_cols parse f)) = length (rows f)"
  by (simp add: coerce_numeric_cols_unfold rows_coerce_step columns_coerce_step)

lemma coerce_cell_idem: "coerce_cell parse (coerce_cell parse c) = coerce_cell parse c"
  by (cases c) (auto split: parse_result.splits)

lemma cell_at_coerce_numeric_cols:
  assumes "i < length (rows f)"
  shows "cell_at (rows (coerce_numeric_cols parse f) ! i) c =
           (if c \<in> set numeric_cols \<and> c \<in> set (columns f)
            then coerce_cell parse (cell_at (rows f ! i) c)
            else cell_at (rows f ! i) c)"
  using assms
  by (simp add: coerce_numeric_cols_unfold rows_coerce_step columns_coerce_step
      cell_at_set_cell numeric_cols_def)

lemma coerce_cell_not_Str: "coerce_cell parse c \<noteq> Str s"
  by (cases c) (auto split: parse_result.splits)

subsection \<open>The steps of \<^verbatim>\<open>process_data\<close>\<close>

lemma dropna_Inr:
  assumes "dropna f subs = Inr d"
  shows "set subs \<subseteq> set (columns f)"
    and "columns d = columns f"
    and "rows d = filter (\<lambda>r. list_all (\<lambda>c. \<not> is_na (cell_at r c)) subs) (rows f)"
proof -
  from assms have m: "filter (\<lambda>c. c \<notin> set (columns f)) subs = []"
    by (auto simp: dropna_def split: list.splits)
  then show "set subs \<subseteq> set (columns f)"
    by (auto simp: filter_empty_conv)
  from assms m show "columns d = columns f"
    by (auto simp: dropna_def)
  from assms m show "rows d = filter (\<lambda>r. list_all (\<lambda>c. \<not> is_na (cell_at r c)) subs) (rows f)"
    by (auto simp: dropna_def)
qed

lemma dropna_present:
  assumes "set subs \<subseteq> set (columns f)"
  shows "\<exists>d. dropna f subs = Inr d"
proof -
  from assms have "filter (\<lambda>c. c \<notin> set (columns f)) subs = []"
    by (auto simp: filter_empty_conv)
  then show ?thesis by (simp add: dropna_def)
qed

lemma series_cmp_Inr:
  "series_cmp opr cs k = Inr bs \<Longrightarrow> bs = map (cell_test opr k) cs"
proof (induction cs arbitrary: bs)
  case Nil
  then show ?case by simp
next
  case (Cons c cs)
  then show ?case
    by (cases c) (auto simp: cell_test_def split: sum.splits)
qed

lemma series_cmp_no_Str:
  "\<forall>c \<in> set cs. \<forall>s. c \<noteq> Str s \<Longrightarrow> \<exists>bs. series_cmp opr cs k = Inr bs"
proof (induction cs)
  case Nil
  then show ?case by simp
next
  case (Cons c cs)
  then obtain bs where "series_cmp opr cs k = Inr bs" by auto
  with Cons.prems show ?case by (cases c) auto
qed

lemma mask_filter: "map fst (filter snd (zip rs (map P rs))) = filter P rs"
  by (induction rs) auto

lemma age_filter_Inr:
  assumes "age_filter f = Inr g"
  shows "''age'' \<in> set (columns f)" and "columns g = columns f"
    and "rows g = filter age_ok (rows f)"
proof -
  from assms show a: "''age'' \<in> set (columns f)"
    by (auto simp: age_filter_def split: if_splits)
  from assms a obtain lo hi where
    lo: "series_cmp (\<ge>) (get_column f ''age'') 15 = Inr lo" and
    hi: "series_cmp (\<le>) (get_column f ''age'') 50 = Inr hi" and
    g: "g = boolean_mask f (map (\<lambda>(a, b). a \<and> b) (zip lo hi))"
    by (auto simp: age_filter_def split: sum.splits)
  from g show "columns g = columns f" by (simp add: boolean_mask_def)
  have "map (\<lambda>(a, b). a \<and> b) (zip lo hi) = map age_ok (rows f)"
    unfolding series_cmp_Inr [OF lo] series_cmp_Inr [OF hi]
    by (auto simp: get_column_def zip_map_map age_ok_def cell_test_def zip_same_conv_map
        split: cell.splits)
  with g show "rows g = filter age_ok (rows f)"
    by (simp add: boolean_mask_def mask_filter)
qed

lemma age_filter_no_Str:
  assumes "''age'' \<in> set (columns f)" and "\<forall>r \<in> set (rows f). \<forall>s. cell_at r ''age'' \<noteq> Str s"
  shows "\<exists>g. age_filter f = Inr g"
proof -
  from assms(2) have ns: "\<forall>c \<in> set (get_column f ''age''). \<forall>s. c \<noteq> Str s"
    by (auto simp: get_column_def)
  obtain lo where "series_cmp (\<ge>) (get_column f ''age'') 15 = Inr lo"
    using series_cmp_no_Str [OF ns] by blast
  moreover obtain hi where "series_cmp (\<le>) (get_column f ''age'') 50 = Inr hi"
    using series_cmp_no_Str [OF ns] by blast
  ultimately show ?thesis using assms(1) by (simp add: age_filter_def)
qed

lemma determine_player_type_Num:
  assumes "cell_at r ''runs'' = Num ru" and "cell_at r ''wickets'' = Num wi"
  shows "determine_player_type r =
           Inr (if val ru > 500 \<and> val wi \<ge> 50 then ''All-Rounder''
                else if val ru > 500 then ''Batsman'' else ''Bowler'')"
  using assms by (simp add: determine_player_type_def)

lemma apply_rows_Inr:
  "apply_rows func rs = Inr vs \<Longrightarrow> list_all2 (\<lambda>r v. \<exists>s. func r = Inr s \<and> v = Str s) rs vs"
proof (induction rs arbitrary: vs)
  case Nil
  then show ?case by simp
next
  case (Cons r rs)
  then show ?case by (auto split: sum.splits)
qed

lemma apply_rows_total:
  "\<forall>r \<in> set rs. \<exists>s. func r = Inr s \<Longrightarrow> \<exists>vs. apply_rows func rs = Inr vs"
proof (induction rs)
  case Nil
  then show ?case by simp
next
  case (Cons r rs)
  then obtain vs where "apply_rows func rs = Inr vs" by auto
  moreover from Cons.prems obtain s where "func r = Inr s" by auto
  ultimately show ?case by simp
qed

lemma coerced_no_Str:
  assumes "r \<in> set (rows (coerce_numeric_cols parse f))"
    and "c \<in> set numeric_cols" and "c \<in> set (columns f)"
  shows "cell_at r c \<noteq> Str s"
proof -
  from assms(1) obtain i where i: "i < length (rows (coerce_numeric_cols parse f))"
    and r: "r = rows (coerce_numeric_cols parse f) ! i"
    by (auto simp: in_set_conv_nth)
  from i have "i < length (rows f)" by (simp add: length_rows_coerce_numeric_cols)
  from cell_at_coerce_numeric_cols [OF this, of parse c] assms(2,3) r
  show ?thesis by (simp add: coerce_cell_not_Str)
qed

lemma process_data_Inr:
  assumes "process_data parse data = Inr out"
  obtains dropped kept types where
    "dropna (coerce_numeric_cols parse data) [''runs'', ''wickets''] = Inr dropped"
    "age_filter dropped = Inr kept"
    "apply_rows determine_player_type (rows kept) = Inr types"
    "out = set_column kept ''playerType'' types"
  using assms by (auto simp: process_data_def split: sum.splits)

text \<open>A row that passed both filters: its age is a number in range, its runs and wickets are numbers.\<close>

lemma kept_row_numeric:
  assumes d: "dropna (coerce_numeric_cols parse data) [''runs'', ''wickets''] = Inr dropped"
    and k: "age_filter dropped = Inr kept"
    and r: "r \<in> set (rows kept)"
  shows "\<exists>a ru wi. cell_at r ''age'' = Num a \<and> 15 \<le> val a \<and> val a \<le> 50 \<and>
           cell_at r ''runs'' = Num ru \<and> cell_at r ''wickets'' = Num wi"
proof -
  from r age_filter_Inr(3) [OF k] have ok: "age_ok r" and rd: "r \<in> set (rows dropped)"
    by auto
  from rd dropna_Inr(3) [OF d]
  have rc: "r \<in> set (rows (coerce_numeric_cols parse data))"
    and nn: "\<not> is_na (cell_at r ''runs'')" "\<not> is_na (cell_at r ''wickets'')"
    by auto
  from dropna_Inr(1) [OF d]
  have cols: "''runs'' \<in> set (columns data)" "''wickets'' \<in> set (columns data)"
    by (auto simp: columns_coerce_numeric_cols)
  have "\<forall>s. cell_at r ''runs'' \<noteq> Str s"
    using coerced_no_Str [OF rc _ cols(1)] by (simp add: numeric_cols_def)
  with nn(1) obtain ru where ru: "cell_at r ''runs'' = Num ru"
    by (cases "cell_at r ''runs''") (auto simp: is_na_def)
  have "\<forall>s. cell_at r ''wickets'' \<noteq> Str s"
    using coerced_no_Str [OF rc _ cols(2)] by (simp add: numeric_cols_def)
  with nn(2) obtain wi where wi: "cell_at r ''wickets'' = Num wi"
    by (cases "cell_at r ''wickets''") (auto simp: is_na_def)
  from ok obtain a where "cell_at r ''age'' = Num a" "15 \<le> val a" "val a \<le> 50"
    by (auto simp: age_ok_def split: cell.splits)
  with ru wi show ?thesis by blast
qed

lemma rows_set_column_in:
  assumes "r \<in> set (rows (set_column f c vs))"
  obtains r0 v where "r0 \<in> set (rows f)" "v \<in> set vs" "r = set_cell c v r0"
  using assms by (auto simp: set_column_def dest: set_zip_leftD set_zip_rightD)

text \<open>Once both filters have run, the classification of every remaining row succeeds.\<close>

lemma classification_rows:
  assumes d: "dropna (coerce_numeric_cols parse data) [''runs'', ''wickets''] = Inr dropped"
    and k: "age_filter dropped = Inr kept"
  shows "\<exists>out. process_data parse data = Inr out \<and> length (rows out) = length (rows kept) \<and>
            (\<forall>i < length (rows kept). \<exists>ru wi s.
               cell_at (rows kept ! i) ''runs'' = Num ru \<and>
               cell_at (rows kept ! i) ''wickets'' = Num wi \<and>
               determine_player_type (rows kept ! i) = Inr s \<and>
               rows out ! i = set_cell ''playerType'' (Str s) (rows kept ! i) \<and>
               s = (if val ru > 500 \<and> val wi \<ge> 50 then ''All-Rounder''
                    else if val ru > 500 then ''Batsman'' else ''Bowler''))"
proof -
  have num: "\<exists>ru wi. cell_at r ''runs'' = Num ru \<and> cell_at r ''wickets'' = Num wi"
    if "r \<in> set (rows kept)" for r
    using kept_row_numeric [OF d k that] by blast
  have "\<forall>r \<in> set (rows kept). \<exists>s. determine_player_type r = Inr s"
    using num determine_player_type_Num by blast
  then obtain types where t: "apply_rows determine_player_type (rows kept) = Inr types"
    using apply_rows_total by blast
  define out where "out = set_column kept ''playerType'' types"
  have p: "process_data parse data = Inr out"
    by (simp add: process_data_def d k t out_def)
  from apply_rows_Inr [OF t]
  have l2: "list_all2 (\<lambda>r v. \<exists>s. determine_player_type r = Inr s \<and> v = Str s) (rows kept) types" .
  then have len: "length types = length (rows kept)"
    by (simp add: list_all2_lengthD)
  then have lo: "length (rows out) = length (rows kept)"
    by (simp add: out_def set_column_def)
  have each: "\<exists>ru wi s.
               cell_at (rows kept ! i) ''runs'' = Num ru \<and>
               cell_at (rows kept ! i) ''wickets'' = Num wi \<and>
               determine_player_type (rows kept ! i) = Inr s \<and>
               rows out ! i = set_cell ''playerType'' (Str s) (rows kept ! i) \<and>
               s = (if val ru > 500 \<and> val wi \<ge> 50 then ''All-Rounder''
                    else if val ru > 500 then ''Batsman'' else ''Bowler'')"
    if i: "i < length (rows kept)" for i
  proof -
    from i num obtain ru wi where
      ru: "cell_at (rows kept ! i) ''runs'' = Num ru" and
      wi: "cell_at (rows kept ! i) ''wickets'' = Num wi"
      by (meson nth_mem)
    define s where "s = (if val ru > 500 \<and> val wi \<ge> 50 then ''All-Rounder''
                else if val ru > 500 then ''Batsman'' else ''Bowler'')"
    have s: "determine_player_type (rows kept ! i) = Inr s"
      unfolding s_def by (rule determine_player_type_Num [OF ru wi])
    from l2 i have "\<exists>s'. determine_player_type (rows kept ! i) = Inr s' \<and> types ! i = Str s'"
      by (simp add: list_all2_conv_all_nth)
    with s have ty: "types ! i = Str s" by simp
    have o: "rows out ! i = set_cell ''playerType'' (Str s) (rows kept ! i)"
      using i len ty by (simp add: out_def set_column_def)
    from ru wi s o s_def show ?thesis by blast
  qed
  from p lo each show ?thesis by blast
qed

text \<open>With its three numeric columns present, \<^verbatim>\<open>process_data\<close> returns a frame.\<close>

lemma process_data_returns:
  assumes cols: "''runs'' \<in> set (columns data)" "''wickets'' \<in> set (columns data)"
      "''age'' \<in> set (columns data)"
  shows "\<exists>out. process_data parse data = Inr out"
proof -
  from cols obtain dropped where
    d: "dropna (coerce_numeric_cols parse data) [''runs'', ''wickets''] = Inr dropped"
    using dropna_present [of "[''runs'', ''wickets'']" "coerce_numeric_cols parse data"]
    by (auto simp: columns_coerce_numeric_cols)
  have age: "''age'' \<in> set (columns dropped)"
    using dropna_Inr(2) [OF d] cols(3) by (simp add: columns_coerce_numeric_cols)
  have "\<forall>r \<in> set (rows dropped). \<forall>s. cell_at r ''age'' \<noteq> Str s"
  proof (intro ballI allI)
    fix r s assume "r \<in> set (rows dropped)"
    with dropna_Inr(3) [OF d] have "r \<in> set (rows (coerce_numeric_cols parse data))" by simp
    from coerced_no_Str [OF this _ cols(3)] show "cell_at r ''age'' \<noteq> Str s"
      by (simp add: numeric_cols_def)
  qed
  from age_filter_no_Str [OF age this] obtain kept where k: "age_filter dropped = Inr kept" ..
  from classification_rows [OF d k] show ?thesis by blast
qed

subsection \<open>The sample run\<close>

lemma dropped_sample_eq:
  "dropna (coerce_numeric_cols parse_decimal merged_sample) [''runs'', ''wickets'']
     = Inr dropped_sample"
  by code_simp

lemma kept_sample_eq: "age_filter dropped_sample = Inr kept_sample"
  by code_simp

lemma processed_sample_eq: "process_data parse_decimal merged_sample = Inr processed_sample"
  by code_simp

subsection \<open>Age range and completeness\<close>

text \<open>
  Claim C1. Whatever the input dataset, every record of the dataset that \<^verbatim>\<open>process_data\<close>
  returns has an age that is a number between 15 and 50, both bounds included, and has
  runs and wickets that are numbers, hence not missing.
\<close>

theorem process_data_rows_in_range:
  assumes "process_data parse data = Inr out" and "r \<in> set (rows out)"
  shows "\<exists>a ru wi. cell_at r ''age'' = Num a \<and> 15 \<le> val a \<and> val a \<le> 50 \<and>
           cell_at r ''runs'' = Num ru \<and> cell_at r ''wickets'' = Num wi"
proof -
  from assms(1) obtain dropped kept types where
    d: "dropna (coerce_numeric_cols parse data) [''runs'', ''wickets''] = Inr dropped" and
    k: "age_filter dropped = Inr kept" and
    out: "out = set_column kept ''playerType'' types"
    by (rule process_data_Inr)
  from assms(2) out obtain r0 v where r0: "r0 \<in> set (rows kept)"
    and r: "r = set_cell ''playerType'' v r0"
    by (auto elim: rows_set_column_in)
  from kept_row_numeric [OF d k r0] r show ?thesis
    by (simp add: cell_at_set_cell)
qed

theorem process_data_rows_in_range_witness:
  "process_data parse_decimal merged_sample = Inr processed_sample \<and>
   rows processed_sample ! 2 \<in> set (rows processed_sample) \<and>
   (\<exists>a ru wi. cell_at (rows processed_sample ! 2) ''age'' = Num a \<and>
      15 \<le> val a \<and> val a \<le> 50 \<and>
      cell_at (rows processed_sample ! 2) ''runs'' = Num ru \<and>
      cell_at (rows processed_sample ! 2) ''wickets'' = Num wi)"
proof -
  have p: "process_data parse_decimal merged_sample = Inr processed_sample"
    by code_simp
  have m: "rows processed_sample ! 2 \<in> set (rows processed_sample)"
    by (simp add: processed_sample_def)
  from process_data_rows_in_range [OF p m] p m show ?thesis by blast
qed

subsection \<open>Classification\<close>

text \<open>
  Claim C2. The records that reach the classification step are the rows left by the two
  filters. For each of them \<^verbatim>\<open>determine_player_type\<close> returns a value that depends on the
  runs and the wickets only, and this value becomes the record's \<^verbatim>\<open>playerType\<close>: more than
  500 runs and at least 50 wickets give All-Rounder, more than 500 runs and fewer than 50
  wickets give Batsman, at most 500 runs give Bowler whatever the wickets. The three cases
  exclude each other and leave no case out. A record with 400 runs and 999 wickets is a
  Bowler.
\<close>

theorem classification_total:
  assumes d: "dropna (coerce_numeric_cols parse data) [''runs'', ''wickets''] = Inr dropped"
    and k: "age_filter dropped = Inr kept"
  shows "(\<exists>out. process_data parse data = Inr out \<and> length (rows out) = length (rows kept) \<and>
            (\<forall>i < length (rows kept). \<exists>ru wi s.
               cell_at (rows kept ! i) ''runs'' = Num ru \<and>
               cell_at (rows kept ! i) ''wickets'' = Num wi \<and>
               determine_player_type (rows kept ! i) = Inr s \<and>
               rows out ! i = set_cell ''playerType'' (Str s) (rows kept ! i) \<and>
               cell_at (rows out ! i) ''playerType'' = Str s \<and>
               (500 < val ru \<and> 50 \<le> val wi \<longrightarrow> s = ''All-Rounder'') \<and>
               (500 < val ru \<and> val wi < 50 \<longrightarrow> s = ''Batsman'') \<and>
               (val ru \<le> 500 \<longrightarrow> s = ''Bowler''))) \<and>
         determine_player_type [(''runs'', Num (I 400)), (''wickets'', Num (I 999))]
           = Inr ''Bowler''"
proof -
  from classification_rows [OF d k] obtain out where
    p: "process_data parse data = Inr out" and
    lo: "length (rows out) = length (rows kept)" and
    each: "\<forall>i < length (rows kept). \<exists>ru wi s.
               cell_at (rows kept ! i) ''runs'' = Num ru \<and>
               cell_at (rows kept ! i) ''wickets'' = Num wi \<and>
               determine_player_type (rows kept ! i) = Inr s \<and>
               rows out ! i = set_cell ''playerType'' (Str s) (rows kept ! i) \<and>
               s = (if val ru > 500 \<and> val wi \<ge> 50 then ''All-Rounder''
                    else if val ru > 500 then ''Batsman'' else ''Bowler'')"
    by blast
  have "\<exists>ru wi s.
               cell_at (rows kept ! i) ''runs'' = Num ru \<and>
               cell_at (rows kept ! i) ''wickets'' = Num wi \<and>
               determine_player_type (rows kept ! i) = Inr s \<and>
               rows out ! i = set_cell ''playerType'' (Str s) (rows kept ! i) \<and>
               cell_at (rows out ! i) ''playerType'' = Str s \<and>
               (500 < val ru \<and> 50 \<le> val wi \<longrightarrow> s = ''All-Rounder'') \<and>
               (500 < val ru \<and> val wi < 50 \<longrightarrow> s = ''Batsman'') \<and>
               (val ru \<le> 500 \<longrightarrow> s = ''Bowler'')"
    if i: "i < length (rows kept)" for i
  proof -
    from each i obtain ru wi s where
      a: "cell_at (rows kept ! i) ''runs'' = Num ru"
         "cell_at (rows kept ! i) ''wickets'' = Num wi"
         "determine_player_type (rows kept ! i) = Inr s"
         "rows out ! i = set_cell ''playerType'' (Str s) (rows kept ! i)" and
      s: "s = (if val ru > 500 \<and> val wi \<ge> 50 then ''All-Rounder''
                    else if val ru > 500 then ''Batsman'' else ''Bowler'')"
      by blast
    from a(4) have c: "cell_at (rows out ! i) ''playerType'' = Str s"
      by (simp add: cell_at_set_cell)
    from s have "(500 < val ru \<and> 50 \<le> val wi \<longrightarrow> s = ''All-Rounder'') \<and>
          (500 < val ru \<and> val wi < 50 \<longrightarrow> s = ''Batsman'') \<and>
          (val ru \<le> 500 \<longrightarrow> s = ''Bowler'')"
      by simp
    with a c show ?thesis by blast
  qed
  moreover
  have "determine_player_type [(''runs'', Num (I 400)), (''wickets'', Num (I 999))]
          = Inr ''Bowler''"
    by (simp add: determine_player_type_def cell_at_def)
  ultimately show ?thesis using p lo by blast
qed

theorem classification_total_witness:
  "dropna (coerce_numeric_cols parse_decimal merged_sample) [''runs'', ''wickets'']
     = Inr dropped_sample \<and>
   age_filter dropped_sample = Inr kept_sample \<and>
   process_data parse_decimal merged_sample = Inr processed_sample \<and>
   map (\<lambda>r. cell_at r ''playerType'') (rows processed_sample)
     = [Str ''All-Rounder'', Str ''Bowler'', Str ''Batsman''] \<and>
   (\<exists>out. process_data parse_decimal merged_sample = Inr out \<and>
      length (rows out) = length (rows kept_sample) \<and>
      (\<forall>i < length (rows kept_sample). \<exists>ru wi s.
         cell_at (rows kept_sample ! i) ''runs'' = Num ru \<and>
         cell_at (rows kept_sample ! i) ''wickets'' = Num wi \<and>
         determine_player_type (rows kept_sample ! i) = Inr s \<and>
         rows out ! i = set_cell ''playerType'' (Str s) (rows kept_sample ! i) \<and>
         cell_at (rows out ! i) ''playerType'' = Str s \<and>
         (500 < val ru \<and> 50 \<le> val wi \<longrightarrow> s = ''All-Rounder'') \<and>
         (500 < val ru \<and> val wi < 50 \<longrightarrow> s = ''Batsman'') \<and>
         (val ru \<le> 500 \<longrightarrow> s = ''Bowler'')))"
proof -
  have d: "dropna (coerce_numeric_cols parse_decimal merged_sample) [''runs'', ''wickets'']
     = Inr dropped_sample"
    by code_simp
  have k: "age_filter dropped_sample = Inr kept_sample"
    by code_simp
  have p: "process_data parse_decimal merged_sample = Inr processed_sample"
    by code_simp
  have t: "map (\<lambda>r. cell_at r ''playerType'') (rows processed_sample)
     = [Str ''All-Rounder'', Str ''Bowler'', Str ''Batsman'']"
    by code_simp
  from classification_total [OF d k] d k p t show ?thesis by blast
qed

subsection \<open>Coercion\<close>

text \<open>
  Claim C8. The coercion step returns a frame with all the rows of its input whatever the
  cells hold: the model of the step has no error to return. In each of the columns runs,
  wickets and age that the input has, every cell is replaced by its coercion, and a cell
  that is neither a number nor a string that parses is replaced by the missing value. No
  cell value makes \<^verbatim>\<open>process_data\<close> as a whole raise either: when it raises, one of the
  three columns is absent.
\<close>

theorem coercion_to_missing:
  assumes "i < length (rows data)" and "c \<in> set numeric_cols" and "c \<in> set (columns data)"
  shows "length (rows (coerce_numeric_cols parse data)) = length (rows data) \<and>
         cell_at (rows (coerce_numeric_cols parse data) ! i) c =
           coerce_cell parse (cell_at (rows data ! i) c) \<and>
         ((\<forall>n. cell_at (rows data ! i) c \<noteq> Num n) \<and>
          (\<forall>s. cell_at (rows data ! i) c = Str s \<longrightarrow> parse s = NotNumeric)
            \<longrightarrow> cell_at (rows (coerce_numeric_cols parse data) ! i) c = NaN) \<and>
         (\<forall>e. process_data parse data = Inl e \<longrightarrow>
            (\<exists>c' \<in> {''runs'', ''wickets'', ''age''}. c' \<notin> set (columns data)))"
proof -
  have a: "cell_at (rows (coerce_numeric_cols parse data) ! i) c =
           coerce_cell parse (cell_at (rows data ! i) c)"
    using cell_at_coerce_numeric_cols [OF assms(1), of parse c] assms(2,3) by simp
  have b: "coerce_cell parse x = NaN"
    if "\<forall>n. x \<noteq> Num n" and "\<forall>s. x = Str s \<longrightarrow> parse s = NotNumeric" for x
    using that by (cases x) auto
  have c: "\<exists>c' \<in> {''runs'', ''wickets'', ''age''}. c' \<notin> set (columns data)"
    if e: "process_data parse data = Inl e" for e
  proof (rule ccontr)
    assume "\<not> ?thesis"
    then have "''runs'' \<in> set (columns data)" "''wickets'' \<in> set (columns data)"
      "''age'' \<in> set (columns data)" by auto
    from process_data_returns [OF this, of parse] e show False by auto
  qed
  from a b c show ?thesis
    by (simp add: length_rows_coerce_numeric_cols)
qed

theorem coercion_to_missing_witness:
  "3 < length (rows merged_sample) \<and> ''age'' \<in> set numeric_cols \<and>
   ''age'' \<in> set (columns merged_sample) \<and>
   cell_at (rows merged_sample ! 3) ''age'' = Str ''n/a'' \<and> parse_decimal ''n/a'' = NotNumeric \<and>
   cell_at (rows (coerce_numeric_cols parse_decimal merged_sample) ! 3) ''age'' = NaN"
proof -
  have h1: "3 < length (rows merged_sample)" by (simp add: merged_sample_def)
  have h2: "''age'' \<in> set numeric_cols" by (simp add: numeric_cols_def)
  have h3: "''age'' \<in> set (columns merged_sample)" by (simp add: merged_sample_def)
  have c: "cell_at (rows merged_sample ! 3) ''age'' = Str ''n/a''"
    by (simp add: merged_sample_def player_def cell_at_def)
  have n: "parse_decimal ''n/a'' = NotNumeric" by code_simp
  from coercion_to_missing [OF h1 h2 h3, of parse_decimal] c n h1 h2 h3 show ?thesis
    by simp
qed

section \<open>Properties of the Validator\<close>

subsection \<open>Selecting and sorting\<close>

lemma cell_at_project:
  "cell_at (project cols r) c = (if c \<in> set cols then cell_at r c else NaN)"
  by (induction cols) (auto simp: project_def cell_at_def)


lemma select_columns_self:
  "select_columns f (columns f)
     = Inr \<lparr>columns = columns f, rows = map (project (columns f)) (rows f)\<rparr>"
proof -
  have "filter (\<lambda>c. c \<notin> set (columns f)) (columns f) = []"
    by (simp add: filter_empty_conv)
  then show ?thesis by (simp add: select_columns_def)
qed

lemma sort_values_missing:
  "col \<notin> set (columns f) \<Longrightarrow> sort_values srt f col = Inl (KeyError [col])"
  by (simp add: sort_values_def)

lemma sort_values_Inr:
  assumes "sort_values srt f col = Inr g"
  shows "col \<in> set (columns f)" and "columns g = columns f"
    and "rows g = srt (\<lambda>r. cell_at r col) (filter (\<lambda>r. \<not> is_na (cell_at r col)) (rows f))
                   @ filter (\<lambda>r. is_na (cell_at r col)) (rows f)"
  using assms by (auto simp: sort_values_def Let_def split: if_splits)


lemma prepare_actual_Inr:
  assumes "prepare_actual srt actual = Inr actual_df"
  shows "''playerName'' \<in> set (columns actual)" and "columns actual_df = columns actual"
    and "sort_values srt \<lparr>columns = columns actual,
            rows = map (project (columns actual)) (rows actual)\<rparr> ''playerName'' = Inr actual_df"
proof -
  from assms show s: "sort_values srt \<lparr>columns = columns actual,
            rows = map (project (columns actual)) (rows actual)\<rparr> ''playerName'' = Inr actual_df"
    by (simp add: prepare_actual_def select_columns_self)
  from sort_values_Inr(1,2) [OF s]
  show "''playerName'' \<in> set (columns actual)" "columns actual_df = columns actual"
    by simp_all
qed

lemma prepare_actual_missing:
  "''playerName'' \<notin> set (columns actual)
     \<Longrightarrow> prepare_actual srt actual = Inl (KeyError [''playerName''])"
  by (simp add: prepare_actual_def select_columns_self sort_values_missing)




subsection \<open>The comparison loops\<close>

text \<open>Python's \<^verbatim>\<open>!=\<close> on the values that are present, and on a missing value.\<close>

lemma py_ne_cases:
  "py_ne (Str a) (Str b) \<longleftrightarrow> a \<noteq> b"
  "py_ne (Num x) (Num y) \<longleftrightarrow> val x \<noteq> val y"
  "py_ne (Str a) (Num y)" "py_ne (Num x) (Str b)" "py_ne NaN c" "py_ne c NaN"
  "\<not> py_ne PyNone PyNone"
  by (simp_all add: py_ne_def)



lemma compare_fields_present:
  "set cols \<subseteq> set acols \<Longrightarrow> \<exists>b. compare_fields acols cols e a = Inr b"
  by (induction cols) auto



lemma compare_rows_total:
  "\<forall>e \<in> set es. \<exists>b. row_fails actual_df e = Inr b \<Longrightarrow> \<exists>rs. compare_rows actual_df es = Inr rs"
proof (induction es)
  case Nil
  then show ?case by simp
next
  case (Cons e es)
  then obtain rs where "compare_rows actual_df es = Inr rs" by auto
  moreover from Cons.prems obtain b where "row_fails actual_df e = Inr b" by auto
  ultimately show ?case by simp
qed




subsection \<open>A sort that keeps equal keys in order\<close>

lemma insert_by_mset: "mset (insert_by key x ys) = add_mset x (mset ys)"
  by (induction ys) auto

lemma stable_sort_mset: "mset (stable_sort key xs) = mset xs"
  by (induction xs) (auto simp: stable_sort_def insert_by_mset)




text \<open>It sorts: on keys of one kind the result ascends.\<close>

lemma cell_le_total: "is_str a \<and> is_str b \<or> is_num a \<and> is_num b \<Longrightarrow> cell_le a b \<or> cell_le b a"
  by (cases a; cases b) (auto simp: is_str_def is_num_def)

lemma cell_le_trans: "cell_le a b \<Longrightarrow> cell_le b c \<Longrightarrow> cell_le a c"
  by (cases a; cases b; cases c) auto

lemma set_insert_by: "set (insert_by key x ys) = insert x (set ys)"
  by (induction ys) auto

lemma sorted_insert_by:
  assumes "sorted_wrt (\<lambda>a b. cell_le (key a) (key b)) ys"
    and "\<forall>y \<in> set ys. cell_le (key x) (key y) \<or> cell_le (key y) (key x)"
  shows "sorted_wrt (\<lambda>a b. cell_le (key a) (key b)) (insert_by key x ys)"
  using assms
proof (induction ys)
  case Nil
  then show ?case by simp
next
  case (Cons y ys)
  show ?case
  proof (cases "cell_le (key x) (key y)")
    case True
    with Cons.prems show ?thesis by (auto intro: cell_le_trans)
  next
    case False
    with Cons.prems have "cell_le (key y) (key x)" by auto
    with False Cons show ?thesis by (auto simp: set_insert_by)
  qed
qed

lemma set_stable_sort: "set (stable_sort key xs) = set xs"
  using stable_sort_mset [of key xs] by (metis set_mset_mset)

lemma stable_sort_sorted:
  assumes "(\<forall>x \<in> set xs. is_str (key x)) \<or> (\<forall>x \<in> set xs. is_num (key x))"
  shows "sorted_wrt (\<lambda>a b. cell_le (key a) (key b)) (stable_sort key xs)"
  using assms
proof (induction xs)
  case Nil
  then show ?case by (simp add: stable_sort_def)
next
  case (Cons x xs)
  then have s: "sorted_wrt (\<lambda>a b. cell_le (key a) (key b)) (stable_sort key xs)" by auto
  have "\<forall>y \<in> set (stable_sort key xs). cell_le (key x) (key y) \<or> cell_le (key y) (key x)"
    using Cons.prems by (auto simp: set_stable_sort intro!: cell_le_total)
  from sorted_insert_by [OF s this] show ?case
    by (simp add: stable_sort_def)
qed

subsection \<open>The sort of numpy\<close>




















text \<open>On a segment of at most seventeen keys \<^verbatim>\<open>npy_aquicksort\<close> is its insertion sort.\<close>

lemma numpy_quicksort_short:
  assumes "length xs \<le> 17"
  shows "numpy_quicksort key xs = insertion_sort key xs"
proof -
  from assms have "\<not> small_quicksort < length xs - 1"
    by (simp add: small_quicksort_def)
  then show ?thesis
    unfolding numpy_quicksort_def by (subst aquicksort.simps) (simp only: if_False)
qed

text \<open>
  The insertion sort keeps rows with equal keys in their order, and so does the routine on
  at most seventeen keys. On more keys it does not: the partition exchanges equal keys.
\<close>

lemma series_eq_not_less: "series_eq a n \<Longrightarrow> series_eq b n \<Longrightarrow> \<not> cell_less a b"
  by (cases a; cases b; cases n) (auto simp: series_eq_def is_na_def)

lemma filter_insert_left:
  "filter (\<lambda>r. series_eq (key r) n) (insert_left key x ys)
     = (if series_eq (key x) n then x # filter (\<lambda>r. series_eq (key r) n) ys
        else filter (\<lambda>r. series_eq (key r) n) ys)"
  by (induction ys) (auto dest: series_eq_not_less)

lemma filter_fold_insert_left:
  "filter (\<lambda>r. series_eq (key r) n) (fold (insert_left key) xs acc)
     = rev (filter (\<lambda>r. series_eq (key r) n) xs) @ filter (\<lambda>r. series_eq (key r) n) acc"
  by (induction xs arbitrary: acc) (simp_all add: filter_insert_left)

lemma insertion_sort_keeps_order: "keeps_order insertion_sort"
  by (simp add: keeps_order_def insertion_sort_def rev_filter [symmetric]
      filter_fold_insert_left)

lemma numpy_quicksort_short_keeps_order:
  assumes "length xs \<le> 17"
  shows "filter (\<lambda>r. series_eq (key r) n) (numpy_quicksort key xs)
           = filter (\<lambda>r. series_eq (key r) n) xs"
  using insertion_sort_keeps_order numpy_quicksort_short [OF assms]
  by (simp add: keeps_order_def)

lemma numpy_quicksort_not_keeps_order: "\<not> keeps_order numpy_quicksort"
proof
  assume "keeps_order numpy_quicksort"
  then have "filter (\<lambda>r. series_eq (cell_at r ''playerName'') (Str ''Bala''))
               (numpy_quicksort (\<lambda>r. cell_at r ''playerName'') (rows squad_sample))
             = filter (\<lambda>r. series_eq (cell_at r ''playerName'') (Str ''Bala''))
                 (rows squad_sample)"
    by (simp add: keeps_order_def)
  moreover have "filter (\<lambda>r. series_eq (cell_at r ''playerName'') (Str ''Bala''))
               (numpy_quicksort (\<lambda>r. cell_at r ''playerName'') (rows squad_sample))
             \<noteq> filter (\<lambda>r. series_eq (cell_at r ''playerName'') (Str ''Bala''))
                 (rows squad_sample)"
    by code_simp
  ultimately show False by contradiction
qed

lemma project_own_labels: "distinct (map fst r) \<Longrightarrow> project (map fst r) r = r"
proof (induction r)
  case Nil
  then show ?case by (simp add: project_def)
next
  case (Cons p r)
  obtain k v where p: "p = (k, v)" by (cases p)
  from Cons.prems p have k: "k \<notin> fst ` set r" and d: "distinct (map fst r)" by auto
  have "map (\<lambda>c. (c, cell_at ((k, v) # r) c)) (map fst r) = map (\<lambda>c. (c, cell_at r c)) (map fst r)"
    using k by (intro map_cong) (auto simp: cell_at_def)
  with Cons.IH [OF d] show ?case
    by (simp add: p project_def cell_at_def)
qed

lemma project_wf:
  assumes "wf_frame f"
  shows "map (project (columns f)) (rows f) = rows f"
proof -
  have "project (columns f) r = r" if "r \<in> set (rows f)" for r
  proof -
    from assms that have "map fst r = columns f" "distinct (columns f)"
      by (auto simp: wf_frame_def list_all_iff)
    then show ?thesis using project_own_labels [of r] by simp
  qed
  then show ?thesis by (simp add: map_idI)
qed

subsection \<open>Rows of the result\<close>



text \<open>
  When both datasets pass lines 96 and 97 and the actual dataset has the six columns, the
  loop raises nothing and \<^verbatim>\<open>validate_output\<close> returns.
\<close>

lemma validate_output_returns:
  assumes pe: "prepare_expected srt expected = Inr expected_sorted"
    and pa: "prepare_actual srt actual = Inr actual_df"
    and cols: "set expected_cols \<subseteq> set (columns actual)"
  shows "\<exists>res. validate_output srt expected actual = Inr res"
proof -
  have "\<exists>b. row_fails actual_df e = Inr b" for e
    using compare_fields_present [of expected_cols "columns actual_df"] cols
    by (auto simp: row_fails_def prepare_actual_Inr(2) [OF pa] split: list.splits)
  then have "\<exists>rs. compare_rows actual_df es = Inr rs" for es
    by (intro compare_rows_total) blast
  then obtain rs where "compare_rows actual_df
      (rows (set_column expected_sorted ''Result''
         (replicate (length (rows expected_sorted)) (Str ''PASS'')))) = Inr rs"
    by blast
  then show ?thesis
    by (simp add: validate_output_def pe pa Let_def)
qed

subsection \<open>Verdicts\<close>




subsection \<open>The first match\<close>




subsection \<open>An actual dataset without names\<close>

text \<open>
  Claim C10. When the actual dataset has no column \<^verbatim>\<open>playerName\<close>, \<^verbatim>\<open>validate_output\<close> raises
  an error whatever the expected dataset is, instead of returning verdicts: the sort of
  line 97 raises KeyError unless line 96 has raised already. This is so in particular for
  the empty frame that \<^verbatim>\<open>read_output_data\<close> returns when both output files are absent.
\<close>

theorem validate_output_raises_without_playerName:
  "(''playerName'' \<notin> set (columns actual) \<longrightarrow>
      (\<exists>e. validate_output srt expected actual = Inl e) \<and>
      (\<forall>expected_sorted. prepare_expected srt expected = Inr expected_sorted \<longrightarrow>
         validate_output srt expected actual = Inl (KeyError [''playerName'']))) \<and>
   (fs (path_join (output_dir self) ''test_results.csv'') = None \<and>
    fs (path_join (output_dir self) ''odi_results.csv'') = None \<longrightarrow>
      read_output_data self fs = Inr empty_frame \<and>
      (\<exists>e. validate_output srt expected empty_frame = Inl e))"
proof -
  have raises: "\<exists>e. validate_output srt expected actual = Inl e"
    and key: "\<forall>expected_sorted. prepare_expected srt expected = Inr expected_sorted \<longrightarrow>
         validate_output srt expected actual = Inl (KeyError [''playerName''])"
    if "''playerName'' \<notin> set (columns actual)" for actual
  proof -
    from that have a: "prepare_actual srt actual = Inl (KeyError [''playerName''])"
      by (rule prepare_actual_missing)
    show "\<exists>e. validate_output srt expected actual = Inl e"
      by (cases "prepare_expected srt expected") (simp_all add: validate_output_def a)
    show "\<forall>expected_sorted. prepare_expected srt expected = Inr expected_sorted \<longrightarrow>
         validate_output srt expected actual = Inl (KeyError [''playerName''])"
      by (simp add: validate_output_def a)
  qed
  have absent: "read_output_data self fs = Inr empty_frame"
    if "fs (path_join (output_dir self) ''test_results.csv'') = None"
       "fs (path_join (output_dir self) ''odi_results.csv'') = None"
    using that
    by (simp add: read_output_data_def read_if_exists_def path_exists_def concat_frames_def
        union_columns_def empty_frame_def Let_def)
  have "''playerName'' \<notin> set (columns empty_frame)" by (simp add: empty_frame_def)
  from raises [OF this] raises key absent show ?thesis by blast
qed

theorem validate_output_raises_without_playerName_witness:
  "''playerName'' \<notin> set (columns empty_frame) \<and>
   files_none (path_join (output_dir sample_tester) ''test_results.csv'') = None \<and>
   files_none (path_join (output_dir sample_tester) ''odi_results.csv'') = None \<and>
   read_output_data sample_tester files_none = Inr empty_frame \<and>
   prepare_expected stable_sort processed_sample
     = Inr \<lparr>columns = expected_cols, rows = rows processed_sample\<rparr> \<and>
   validate_output stable_sort processed_sample empty_frame = Inl (KeyError [''playerName''])"
proof -
  have h1: "''playerName'' \<notin> set (columns empty_frame)" by (simp add: empty_frame_def)
  have h2: "files_none (path_join (output_dir sample_tester) ''test_results.csv'') = None"
    "files_none (path_join (output_dir sample_tester) ''odi_results.csv'') = None"
    by (simp_all add: files_none_def)
  have h3: "prepare_expected stable_sort processed_sample
     = Inr \<lparr>columns = expected_cols, rows = rows processed_sample\<rparr>"
    by code_simp
  from validate_output_raises_without_playerName
    [of empty_frame stable_sort processed_sample files_none sample_tester] h1 h2 h3
  show ?thesis by simp
qed

section \<open>Properties of the Schema Checker\<close>

lemma schema_loop:
  "fold (schema_step parse isd data) entries (valid, errors)
     = (valid \<and> filter (reported_column parse isd data) entries = [],
        errors @ map (message_of data) (filter (reported_column parse isd data) entries))"
proof (induction entries arbitrary: valid errors)
  case Nil
  then show ?case by simp
next
  case (Cons entry entries)
  obtain column ty where entry: "entry = (column, ty)" by (cases entry)
  show ?case
  proof (cases ty)
    case PyStr
    show ?thesis
      unfolding fold_simps
      by (simp add: entry PyStr schema_step_def reported_column_def message_of_def Cons.IH)
  next
    case PyInt
    show ?thesis
      unfolding fold_simps
      by (simp add: entry PyInt schema_step_def reported_column_def message_of_def Cons.IH)
  qed
qed

text \<open>
  The boolean that \<^verbatim>\<open>validate_schema\<close> returns is false exactly when the list of errors is
  not empty, and the list holds one message for each column that the loop reports, in the
  order of the schema, and nothing else: for a missing column the message that it is
  missing, and no message on its type.
\<close>

lemma validate_schema_reports:
  "validate_schema parse isd data
     = (map (message_of data) (filter (reported_column parse isd data) expected_schema) = [],
        map (message_of data) (filter (reported_column parse isd data) expected_schema)) \<and>
   (fst (validate_schema parse isd data) = False
      \<longleftrightarrow> snd (validate_schema parse isd data) \<noteq> []) \<and>
   (\<forall>column ty. (column, ty) \<in> set expected_schema \<and> column \<notin> set (columns data) \<longrightarrow>
      reported_column parse isd data (column, ty) \<and>
      message_of data (column, ty) = missing_message column)"
proof -
  have v: "validate_schema parse isd data
     = (map (message_of data) (filter (reported_column parse isd data) expected_schema) = [],
        map (message_of data) (filter (reported_column parse isd data) expected_schema))"
    by (simp add: validate_schema_def schema_loop)
  then have "fst (validate_schema parse isd data) = False
      \<longleftrightarrow> snd (validate_schema parse isd data) \<noteq> []"
    by simp
  with v show ?thesis
    by (simp add: reported_column_def message_of_def)
qed

lemma validate_schema_broken_sample:
  "filter (reported_column parse_decimal all_strings broken_sample) expected_schema
     = [(''age'', PyInt), (''wickets'', PyInt), (''playerType'', PyStr)] \<and>
   validate_schema parse_decimal all_strings broken_sample
     = (False, [integer_message ''age'', missing_message ''wickets'',
                string_message ''playerType''])"
  by code_simp

text \<open>
  Claim C4 asks for one message for each violating column, and for a boolean that is false
  when there is one. A column of the schema violates it when it is missing or present with
  the wrong type, and an integer column whose values are no whole numbers has the wrong type.
  The loop reports an integer column only when \<^verbatim>\<open>to_numeric\<close> raises, so the two differ: in
  the sample the column of ages holds 30.5 and is the one violating column, the list of
  errors is empty and the boolean is true. The defect is that of claim C5.
\<close>

theorem float_age_not_reported:
  "filter (spec_violating_column all_strings float_age_sample) expected_schema
     = [(''age'', PyInt)] \<and>
   filter (reported_column parse_decimal all_strings float_age_sample) expected_schema = [] \<and>
   snd (validate_schema parse_decimal all_strings float_age_sample) = [] \<and>
   fst (validate_schema parse_decimal all_strings float_age_sample) = True"
  by code_simp

text \<open>
  Claim C5 asks that an integer column of the wrong type be reported and that a wider
  numeric type be accepted only when its values are whole numbers. The check of lines 148
  to 154 reports an integer column only when \<^verbatim>\<open>to_numeric\<close> raises, which it does for a
  string that is no number and never for a float: a column of ages such as 30.5 has no
  integer dtype and passes.
\<close>

theorem float_age_accepted:
  "get_column float_age_sample ''age'' = [Num (F (61 / 2))] \<and>
   is_integer_dtype (get_column float_age_sample ''age'') = False \<and>
   to_numeric_raises parse (get_column float_age_sample ''age'') = False \<and>
   validate_schema parse_decimal all_strings float_age_sample = (True, [])"
proof -
  have c: "get_column float_age_sample ''age'' = [Num (F (61 / 2))]"
    by code_simp
  have v: "validate_schema parse_decimal all_strings float_age_sample = (True, [])"
    by code_simp
  from c v show ?thesis
    by (simp add: is_integer_dtype_def to_numeric_raises_def)
qed

text \<open>What the check of an integer column does decide: whether a string is no number.\<close>

lemma integer_column_reported_iff:
  assumes "column \<in> set (columns data)"
  shows "reported_column parse isd data (column, PyInt)
           \<longleftrightarrow> (\<exists>s \<in> set (get_column data column). \<exists>t. s = Str t \<and> parse t = NotNumeric)"
proof -
  have "is_integer_dtype col \<Longrightarrow> \<not> to_numeric_raises parse col" for col
    by (induction col) (auto simp: is_integer_dtype_def to_numeric_raises_def split: cell.splits)
  moreover have "to_numeric_raises parse col
                   \<longleftrightarrow> (\<exists>s \<in> set col. \<exists>t. s = Str t \<and> parse t = NotNumeric)" for col
    by (induction col) (auto simp: to_numeric_raises_def split: cell.splits)
  ultimately show ?thesis using assms
    by (auto simp: reported_column_def)
qed

section \<open>Properties of the Output Reader\<close>

lemma set_fold_add_label: "set (fold add_label xs acc) = set acc \<union> set xs"
  by (induction xs arbitrary: acc) (auto simp: add_label_def)

lemma fold_add_label_distinct:
  "distinct (acc @ xs) \<Longrightarrow> fold add_label xs acc = acc @ xs"
  by (induction xs arbitrary: acc) (auto simp: add_label_def)

lemma fold_add_label_known:
  "set xs \<subseteq> set acc \<Longrightarrow> fold add_label xs acc = acc"
  by (induction xs arbitrary: acc) (auto simp: add_label_def)

lemma concat_frames_two:
  "concat_frames [a, b]
     = Inr \<lparr>columns = union_columns [columns a, columns b],
            rows = map (project (union_columns [columns a, columns b])) (rows a)
                     @ map (project (union_columns [columns a, columns b])) (rows b)\<rparr>"
  by (simp add: concat_frames_def Let_def)

lemma set_union_columns_two: "set (union_columns [xs, ys]) = set xs \<union> set ys"
  by (simp add: union_columns_def set_fold_add_label)

lemma concat_frames_empty_right:
  assumes "wf_frame a"
  shows "concat_frames [a, empty_frame] = Inr a"
proof -
  from assms have "distinct (columns a)" by (simp add: wf_frame_def)
  then have u: "union_columns [columns a, columns empty_frame] = columns a"
    using fold_add_label_distinct [of "[]" "columns a"]
    by (simp add: union_columns_def empty_frame_def)
  show ?thesis
    unfolding concat_frames_two u
    by (simp add: empty_frame_def project_wf [OF assms])
qed

lemma read_if_exists_absent: "fs p = None \<Longrightarrow> read_if_exists fs p = Inr empty_frame"
  by (simp add: read_if_exists_def path_exists_def)

lemma read_if_exists_csv: "fs p = Some (Csv f) \<Longrightarrow> read_if_exists fs p = Inr f"
  by (simp add: read_if_exists_def path_exists_def read_csv_def)

text \<open>
  Claim C7. An output file that is absent is read as the empty frame, and no error is
  raised for it. When both reads return frames, \<^verbatim>\<open>read_output_data\<close> returns a frame whose
  rows are the rows of \<^verbatim>\<open>test_results.csv\<close> followed by the rows of \<^verbatim>\<open>odi_results.csv\<close>, each
  with the cells it had. When only \<^verbatim>\<open>odi_results.csv\<close> is absent the result is the frame of
  \<^verbatim>\<open>test_results.csv\<close> itself.
\<close>

theorem read_output_data_concat:
  "(fs p = None \<longrightarrow> read_if_exists fs p = Inr empty_frame) \<and>
   (read_if_exists fs (path_join (output_dir self) ''test_results.csv'') = Inr test_data \<and>
    read_if_exists fs (path_join (output_dir self) ''odi_results.csv'') = Inr odi_data \<longrightarrow>
      (\<exists>out. read_output_data self fs = Inr out \<and>
         set (columns out) = set (columns test_data) \<union> set (columns odi_data) \<and>
         rows out = map (project (columns out)) (rows test_data)
                      @ map (project (columns out)) (rows odi_data) \<and>
         (\<forall>i < length (rows test_data). \<forall>c \<in> set (columns test_data).
            cell_at (rows out ! i) c = cell_at (rows test_data ! i) c) \<and>
         (\<forall>j < length (rows odi_data). \<forall>c \<in> set (columns odi_data).
            cell_at (rows out ! (length (rows test_data) + j)) c
              = cell_at (rows odi_data ! j) c))) \<and>
   (fs (path_join (output_dir self) ''test_results.csv'') = Some (Csv test_data) \<and>
    fs (path_join (output_dir self) ''odi_results.csv'') = None \<and> wf_frame test_data \<longrightarrow>
      read_output_data self fs = Inr test_data)"
proof -
  have both: "\<exists>out. read_output_data self fs = Inr out \<and>
         set (columns out) = set (columns test_data) \<union> set (columns odi_data) \<and>
         rows out = map (project (columns out)) (rows test_data)
                      @ map (project (columns out)) (rows odi_data) \<and>
         (\<forall>i < length (rows test_data). \<forall>c \<in> set (columns test_data).
            cell_at (rows out ! i) c = cell_at (rows test_data ! i) c) \<and>
         (\<forall>j < length (rows odi_data). \<forall>c \<in> set (columns odi_data).
            cell_at (rows out ! (length (rows test_data) + j)) c
              = cell_at (rows odi_data ! j) c)"
    if t: "read_if_exists fs (path_join (output_dir self) ''test_results.csv'') = Inr test_data"
    and o: "read_if_exists fs (path_join (output_dir self) ''odi_results.csv'') = Inr odi_data"
  proof -
    define cols where "cols = union_columns [columns test_data, columns odi_data]"
    define out where "out = \<lparr>columns = cols,
            rows = map (project cols) (rows test_data) @ map (project cols) (rows odi_data)\<rparr>"
    have r: "read_output_data self fs = Inr out"
      by (simp add: read_output_data_def Let_def t o concat_frames_two out_def cols_def)
    have s: "set cols = set (columns test_data) \<union> set (columns odi_data)"
      by (simp add: cols_def set_union_columns_two)
    have "cell_at (rows out ! i) c = cell_at (rows test_data ! i) c"
      if "i < length (rows test_data)" "c \<in> set (columns test_data)" for i c
      using that s by (simp add: out_def nth_append cell_at_project)
    moreover have "cell_at (rows out ! (length (rows test_data) + j)) c
              = cell_at (rows odi_data ! j) c"
      if "j < length (rows odi_data)" "c \<in> set (columns odi_data)" for j c
      using that s by (simp add: out_def nth_append cell_at_project)
    moreover have "rows out = map (project (columns out)) (rows test_data)
                      @ map (project (columns out)) (rows odi_data)"
      by (simp add: out_def)
    moreover have "set (columns out) = set (columns test_data) \<union> set (columns odi_data)"
      using s by (simp add: out_def)
    ultimately show ?thesis using r by blast
  qed
  have only_test: "read_output_data self fs = Inr test_data"
    if "fs (path_join (output_dir self) ''test_results.csv'') = Some (Csv test_data)"
      "fs (path_join (output_dir self) ''odi_results.csv'') = None" "wf_frame test_data"
    using that
    by (simp add: read_output_data_def Let_def read_if_exists_absent read_if_exists_csv
        concat_frames_empty_right)
  from both only_test read_if_exists_absent [of fs p] show ?thesis by blast
qed

theorem read_output_data_concat_witness:
  "files_test_only (path_join (output_dir sample_tester) ''odi_results.csv'') = None \<and>
   files_test_only (path_join (output_dir sample_tester) ''test_results.csv'')
     = Some (Csv test_results_sample) \<and>
   wf_frame test_results_sample \<and>
   read_if_exists files_test_only (path_join (output_dir sample_tester) ''odi_results.csv'')
     = Inr empty_frame \<and>
   read_output_data sample_tester files_test_only = Inr test_results_sample \<and>
   read_if_exists files_both (path_join (output_dir sample_tester) ''test_results.csv'')
     = Inr test_results_sample \<and>
   read_if_exists files_both (path_join (output_dir sample_tester) ''odi_results.csv'')
     = Inr odi_results_sample \<and>
   read_output_data sample_tester files_both = Inr both_results_sample \<and>
   (\<exists>out. read_output_data sample_tester files_both = Inr out \<and>
      rows out = map (project (columns out)) (rows test_results_sample)
                   @ map (project (columns out)) (rows odi_results_sample))"
proof -
  have a: "files_test_only (path_join (output_dir sample_tester) ''odi_results.csv'') = None"
    by code_simp
  have b: "files_test_only (path_join (output_dir sample_tester) ''test_results.csv'')
     = Some (Csv test_results_sample)"
    by code_simp
  have w: "wf_frame test_results_sample"
    by code_simp
  have t: "read_if_exists files_both (path_join (output_dir sample_tester) ''test_results.csv'')
     = Inr test_results_sample"
    by code_simp
  have o: "read_if_exists files_both (path_join (output_dir sample_tester) ''odi_results.csv'')
     = Inr odi_results_sample"
    by code_simp
  have r: "read_output_data sample_tester files_both = Inr both_results_sample"
    by code_simp
  from read_output_data_concat [of files_test_only
      "path_join (output_dir sample_tester) ''odi_results.csv''" sample_tester
      test_results_sample empty_frame] a b w
  have c1: "read_if_exists files_test_only
              (path_join (output_dir sample_tester) ''odi_results.csv'') = Inr empty_frame"
    and c2: "read_output_data sample_tester files_test_only = Inr test_results_sample"
    by simp_all
  from read_output_data_concat [of files_both
      "path_join (output_dir sample_tester) ''odi_results.csv''" sample_tester
      test_results_sample odi_results_sample] t o
  have c3: "\<exists>out. read_output_data sample_tester files_both = Inr out \<and>
      rows out = map (project (columns out)) (rows test_results_sample)
                   @ map (project (columns out)) (rows odi_results_sample)"
    by blast
  from a b w t o r c1 c2 c3 show ?thesis by blast
qed

section \<open>The input of \<^verbatim>\<open>process_data\<close> is left alone\<close>

lemma coerce_loop_heap:
  assumes "p < length h"
  shows "fold (coerce_step_heap parse p) cols h = h[p := fold (coerce_step parse) cols (h ! p)]"
  using assms
proof (induction cols arbitrary: h)
  case Nil
  then show ?case by simp
next
  case (Cons col cols)
  have step: "coerce_step_heap parse p col h = h[p := coerce_step parse col (h ! p)]"
    by (simp add: coerce_step_heap_def coerce_step_def setitem_def)
  from Cons.prems have "p < length (h[p := coerce_step parse col (h ! p)])" by simp
  from Cons.IH [OF this] Cons.prems show ?case
    by (simp add: step)
qed

text \<open>
  Claim C9. After a call of \<^verbatim>\<open>process_data\<close>, whether it returns or raises, every object
  that was in the heap before the call, the argument among them, is the frame it was
  before. The frame returned is a new object, and it is the frame that \<^verbatim>\<open>process_data\<close>
  computes from the value of the argument.
\<close>

theorem process_data_keeps_input:
  assumes "data < length h"
  shows "case process_data_heap parse h data of
           (h', result) \<Rightarrow>
             length h \<le> length h' \<and> h' ! data = h ! data \<and>
             (\<forall>a < length h. h' ! a = h ! a) \<and>
             (case result of
                Inl e \<Rightarrow> process_data parse (h ! data) = Inl e
              | Inr p \<Rightarrow> length h \<le> p \<and> p < length h' \<and>
                         process_data parse (h ! data) = Inr (h' ! p))"
proof -
  define f where "f = h ! data"
  define h2 where "h2 = h @ [coerce_numeric_cols parse f]"
  have loop: "fold (coerce_step_heap parse (length h)) numeric_cols (h @ [f]) = h2"
    using coerce_loop_heap [of "length h" "h @ [f]" parse numeric_cols]
    by (simp add: h2_def coerce_numeric_cols_def)
  have h2p: "h2 ! length h = coerce_numeric_cols parse f" by (simp add: h2_def)
  have old2: "\<forall>a < length h. h2 ! a = h ! a" by (simp add: h2_def nth_append)
  show ?thesis
  proof (cases "dropna (coerce_numeric_cols parse f) [''runs'', ''wickets'']")
    case (Inl e)
    then have "process_data_heap parse h data = (h2, Inl e)"
      by (simp add: process_data_heap_def new_object_def Let_def f_def [symmetric] loop h2p)
    moreover from Inl have "process_data parse f = Inl e" by (simp add: process_data_def)
    ultimately show ?thesis using old2 assms by (simp add: f_def h2_def)
  next
    case d: (Inr dropped)
    define h3 where "h3 = h2 @ [dropped]"
    have h3p: "h3 ! length h2 = dropped" by (simp add: h3_def)
    have old3: "\<forall>a < length h. h3 ! a = h ! a" by (simp add: h3_def h2_def nth_append)
    show ?thesis
    proof (cases "age_filter dropped")
      case (Inl e)
      with d have "process_data_heap parse h data = (h3, Inl e)"
        by (simp add: process_data_heap_def new_object_def Let_def f_def [symmetric] loop h2p
            h3_def [symmetric] h3p)
      moreover from d Inl have "process_data parse f = Inl e" by (simp add: process_data_def)
      ultimately show ?thesis using old3 assms by (simp add: f_def h3_def h2_def)
    next
      case k: (Inr kept)
      define h4 where "h4 = h3 @ [kept]"
      have h4p: "h4 ! length h3 = kept" by (simp add: h4_def)
      have old4: "\<forall>a < length h. h4 ! a = h ! a"
        by (simp add: h4_def h3_def h2_def nth_append)
      have len4: "length h4 = length h + 3" by (simp add: h4_def h3_def h2_def)
      show ?thesis
      proof (cases "apply_rows determine_player_type (rows kept)")
        case (Inl e)
        with d k have "process_data_heap parse h data = (h4, Inl e)"
          by (simp add: process_data_heap_def new_object_def Let_def f_def [symmetric] loop h2p
              h3_def [symmetric] h3p h4_def [symmetric] h4p)
        moreover from d k Inl have "process_data parse f = Inl e"
          by (simp add: process_data_def)
        ultimately show ?thesis using old4 assms len4 by (simp add: f_def)
      next
        case t: (Inr types)
        define h5 where "h5 = h4[length h3 := set_column kept ''playerType'' types]"
        from d k t have r: "process_data_heap parse h data = (h5, Inr (length h3))"
          by (simp add: process_data_heap_def new_object_def Let_def f_def [symmetric] loop h2p
              h3_def [symmetric] h3p h4_def [symmetric] h4p setitem_def h5_def)
        from d k t have p: "process_data parse f = Inr (set_column kept ''playerType'' types)"
          by (simp add: process_data_def)
        have l3: "length h3 = length h + 2" by (simp add: h3_def h2_def)
        have h5p: "h5 ! length h3 = set_column kept ''playerType'' types"
          by (simp add: h5_def h4_def)
        have old5: "\<forall>a < length h. h5 ! a = h ! a"
          using old4 l3 by (simp add: h5_def)
        have len5: "length h5 = length h + 3" using len4 by (simp add: h5_def)
        from r p h5p old5 len5 l3 assms show ?thesis by (simp add: f_def)
      qed
    qed
  qed
qed

theorem process_data_keeps_input_witness:
  "(0::nat) < length [merged_sample] \<and>
   process_data_heap parse_decimal [merged_sample] 0
     = ([merged_sample, coerce_numeric_cols parse_decimal merged_sample, dropped_sample,
         processed_sample], Inr 3) \<and>
   fst (process_data_heap parse_decimal [merged_sample] 0) ! 0 = merged_sample"
proof -
  have l: "(0::nat) < length [merged_sample]" by simp
  have r: "process_data_heap parse_decimal [merged_sample] 0
     = ([merged_sample, coerce_numeric_cols parse_decimal merged_sample, dropped_sample,
         processed_sample], Inr 3)"
    by code_simp
  from process_data_keeps_input [OF l, of parse_decimal] l r show ?thesis
    by (simp split: prod.splits)
qed

end
